theory Spec2Isabelle
  imports Complex_Main "HOL-Library.AList" "HOL-Library.Multiset"
begin

section \<open>Data model of server.js\<close>

text \<open>
  The only exception the modelled code can raise is the JavaScript \<open>TypeError\<close> of a
  property read on \<open>null\<close> or \<open>undefined\<close>.
\<close>

datatype error = TypeError

text \<open>
  A player object \<open>{id, name, score, isHost}\<close> as built by \<open>Game.addPlayer\<close>.
  The field \<open>id\<close> is called \<open>pid\<close> here, \<open>id\<close> being the identity function of HOL.
\<close>

record player =
  pid :: string
  name :: string
  score :: nat
  isHost :: bool

text \<open>
  A question of the bank, \<open>{question, answers, correctIndex}\<close>, and the object that
  \<open>getRandomQuestion\<close> builds from it, \<open>{...q, strand, id}\<close> (the field \<open>id\<close> is \<open>qid\<close> here).
\<close>

record bank_question =
  question :: string
  answers :: "string list"
  correctIndex :: int

record drawn_question = bank_question +
  strand :: string
  qid :: string

section \<open>shuffleAnswers\<close>

text \<open>
  \<open>Math.floor(Math.random() * n)\<close>, with the value \<open>r\<close> that \<open>Math.random()\<close> returned.
  \<open>Math.random\<close> returns a number with \<open>0 \<le> r < 1\<close>; the theorems below assume exactly that
  of every random value.
\<close>

definition random_floor :: "real \<Rightarrow> nat \<Rightarrow> int" where
  "random_floor r n = \<lfloor>r * real n\<rfloor>"

text \<open>\<open>Array.prototype.findIndex\<close>: the first index whose element satisfies \<open>P\<close>, or \<open>-1\<close>.\<close>

fun findIndex :: "('a \<Rightarrow> bool) \<Rightarrow> 'a list \<Rightarrow> int" where
  "findIndex P [] = -1"
| "findIndex P (x # xs) =
     (if P x then 0 else (let k = findIndex P xs in if k < 0 then -1 else k + 1))"

text \<open>
  \<open>answers.map((answer, idx) => ({answer, isCorrect: idx === correctIndex}))\<close>:
  \<open>idx\<close> counts from \<open>k\<close> in the recursion, from \<open>0\<close> in the call.
\<close>

fun answerObjs_from :: "int \<Rightarrow> string list \<Rightarrow> int \<Rightarrow> (string \<times> bool) list" where
  "answerObjs_from k [] ci = []"
| "answerObjs_from k (a # as) ci = (a, k = ci) # answerObjs_from (k + 1) as ci"

text \<open>
  The Fisher-Yates loop \<open>for (let i = length - 1; i > 0; i--)\<close>, with \<open>rs i\<close> the value
  of \<open>Math.random()\<close> in the iteration of index \<open>i\<close>. The destructuring assignment swaps the
  elements at \<open>i\<close> and \<open>j\<close>. An index \<open>j\<close> outside \<open>0..i\<close> (impossible for a random value in
  \<open>[0, 1)\<close>) reads \<open>undefined\<close> and stores it at \<open>i\<close>, where it stays inside the array until
  \<open>answerObjs.map(obj => obj.answer)\<close> raises a \<open>TypeError\<close> on it.
\<close>

fun fisher_yates :: "(nat \<Rightarrow> real) \<Rightarrow> nat \<Rightarrow> 'a list \<Rightarrow> error + 'a list" where
  "fisher_yates rs 0 objs = Inr objs"
| "fisher_yates rs (Suc i) objs =
     (let j = random_floor (rs (Suc i)) (Suc i + 1) in
      if 0 \<le> j \<and> j \<le> int (Suc i)
      then fisher_yates rs i (objs[Suc i := objs ! nat j, nat j := objs ! Suc i])
      else Inl TypeError)"

text \<open>\<open>shuffleAnswers(answers, correctIndex)\<close>, returning \<open>{shuffledAnswers, newCorrectIndex}\<close>.\<close>

definition shuffleAnswers ::
  "(nat \<Rightarrow> real) \<Rightarrow> string list \<Rightarrow> int \<Rightarrow> error + (string list \<times> int)" where
  "shuffleAnswers rs answers' correctIndex' =
     (let answerObjs = answerObjs_from 0 answers' correctIndex' in
      case fisher_yates rs (length answerObjs - 1) answerObjs of
        Inl e \<Rightarrow> Inl e
      | Inr shuffled \<Rightarrow> Inr (map fst shuffled, findIndex snd shuffled))"

section \<open>The Game class\<close>

text \<open>
  The fields of \<open>Game\<close>. \<open>players\<close> is a JavaScript \<open>Map\<close>, which iterates in insertion order
  (\<open>checkWinner\<close> and \<open>getPlayerList\<close> depend on it): an association list, read with
  \<open>map_of\<close>, written with \<open>AList.update\<close> (an existing key keeps its place, a new one goes to
  the end) and \<open>AList.delete\<close>. \<open>timerInterval\<close> is the handle that \<open>setInterval\<close> returned, a
  number here. \<open>winner\<close> holds the player object that \<open>checkWinner\<close> returned; the code only
  tests it for \<open>null\<close>.
\<close>

record game =
  code :: string
  hostId :: string
  players :: "(string \<times> player) list"
  started :: bool
  gradeLevel :: "string option"
  currentQuestion :: "drawn_question option"
  questionIndex :: nat
  usedQuestions :: "string set"
  questionAnswered :: bool
  timerInterval :: "nat option"
  timeRemaining :: int
  winner :: "player option"

text \<open>The constructor \<open>new Game(code, hostId)\<close>.\<close>

definition new_Game :: "string \<Rightarrow> string \<Rightarrow> game" where
  "new_Game code' hostId' =
     \<lparr>code = code', hostId = hostId', players = [], started = False, gradeLevel = None,
      currentQuestion = None, questionIndex = 0, usedQuestions = {}, questionAnswered = False,
      timerInterval = None, timeRemaining = 15, winner = None\<rparr>"

definition addPlayer :: "game \<Rightarrow> string \<Rightarrow> string \<Rightarrow> game" where
  "addPlayer g socketId name' =
     g\<lparr>players := AList.update socketId
          \<lparr>pid = socketId, name = name', score = 0, isHost = (socketId = hostId g)\<rparr> (players g)\<rparr>"

definition removePlayer :: "game \<Rightarrow> string \<Rightarrow> game" where
  "removePlayer g socketId = g\<lparr>players := AList.delete socketId (players g)\<rparr>"

definition getPlayerList :: "game \<Rightarrow> player list" where
  "getPlayerList g = map snd (players g)"

text \<open>\<open>checkWinner\<close>: the first player, in the order of the map, whose score is at least 10.\<close>

definition checkWinner :: "game \<Rightarrow> player option" where
  "checkWinner g = List.find (\<lambda>p. 10 \<le> score p) (map snd (players g))"

section \<open>getRandomQuestion\<close>

text \<open>
  The question bank \<open>require('./data/questions.js')\<close> is not part of the sources; it is a
  parameter of the model. The code reads it as an object from grade levels to objects from
  strands to arrays of questions: \<open>questions k\<close> is the value of the property \<open>k\<close>, \<open>None\<close> when
  the bank has no such property, and the strands of a grade are listed in the order in which
  \<open>for (const strand in gradeQuestions)\<close> enumerates them.
\<close>

type_synonym bank = "string \<Rightarrow> (string \<times> bank_question list) list option"

text \<open>The property key of \<open>questions[this.gradeLevel]\<close>: \<open>null\<close> is converted to the string.\<close>

definition property_key :: "string option \<Rightarrow> string" where
  "property_key gl = (case gl of None \<Rightarrow> ''null'' | Some s \<Rightarrow> s)"

text \<open>The decimal digits of a number, as the template literal writes \<open>idx\<close>.\<close>

definition digit_char :: "nat \<Rightarrow> char" where
  "digit_char d = char_of (48 + d)"

fun string_of_nat :: "nat \<Rightarrow> string" where
  "string_of_nat n =
     (if n < 10 then [digit_char n] else string_of_nat (n div 10) @ [digit_char (n mod 10)])"

declare string_of_nat.simps [simp del]

text \<open>
  \<open>gradeQuestions[strand].forEach((q, idx) => allQuestions.push({...q, strand, id: `${strand}-${idx}`}))\<close>,
  with \<open>idx\<close> counting from the second argument.
\<close>

fun strand_questions :: "string \<Rightarrow> nat \<Rightarrow> bank_question list \<Rightarrow> drawn_question list" where
  "strand_questions s idx [] = []"
| "strand_questions s idx (q # qs) =
     \<lparr>question = question q, answers = answers q, correctIndex = correctIndex q,
      strand = s, qid = s @ ''-'' @ string_of_nat idx\<rparr> # strand_questions s (Suc idx) qs"

text \<open>The loop over the strands that flattens them into \<open>allQuestions\<close>.\<close>

fun allQuestions_of :: "(string \<times> bank_question list) list \<Rightarrow> drawn_question list" where
  "allQuestions_of [] = []"
| "allQuestions_of ((s, qs) # rest) = strand_questions s 0 qs @ allQuestions_of rest"

text \<open>
  \<open>getRandomQuestion\<close>, with \<open>r\<close> the value of its one call of \<open>Math.random()\<close>. It returns the
  question (\<open>None\<close> for \<open>null\<close>) and the game with its updated \<open>usedQuestions\<close>. The method
  calls itself after clearing the used set, so it is a partial function: the result \<open>None\<close>
  of the model means that the call never returns. An index outside the array (impossible
  for a random value in \<open>[0, 1)\<close>) reads \<open>undefined\<close>, and \<open>question.id\<close> raises.
\<close>

partial_function (option) getRandomQuestion ::
  "bank \<Rightarrow> real \<Rightarrow> game \<Rightarrow> (error + drawn_question option \<times> game) option" where
  "getRandomQuestion questions r g =
     (case questions (property_key (gradeLevel g)) of
        None \<Rightarrow> Some (Inr (None, g))
      | Some gradeQuestions \<Rightarrow>
          (let allQuestions = allQuestions_of gradeQuestions;
               availableQuestions = filter (\<lambda>q. qid q \<notin> usedQuestions g) allQuestions
           in if length availableQuestions = 0
              then getRandomQuestion questions r (g\<lparr>usedQuestions := {}\<rparr>)
              else (let randomIndex = random_floor r (length availableQuestions) in
                    if 0 \<le> randomIndex \<and> randomIndex < int (length availableQuestions)
                    then (let q = availableQuestions ! nat randomIndex in
                          Some (Inr (Some q, g\<lparr>usedQuestions := insert (qid q) (usedQuestions g)\<rparr>)))
                    else Some (Inl TypeError))))"

section \<open>Messages and effects\<close>

text \<open>
  The events the server sends, with their payloads, and what a handler asks of its
  environment: a message to the socket of the request, a message to the room of the game,
  \<open>clearInterval\<close> of a handle (\<open>None\<close> for \<open>null\<close>), \<open>setTimeout\<close> of \<open>sendNextQuestion\<close>
  (delay in milliseconds), \<open>setInterval\<close> of the countdown tick (handle and period), and
  \<open>socket.join\<close>.
\<close>

datatype msg =
    ErrorMsg string
  | GameCreated string bool
  | PlayerList "player list"
  | GameStarted string
  | NewQuestion string "string list" string nat
  | TimerUpdate int
  | QuestionResult string string int "player list"
  | TimeUp int "player list"
  | GameOver player "player list"
  | GameReset "player list"
  | HostLeft

datatype effect =
    Emit msg
  | Broadcast msg
  | ClearInterval "nat option"
  | SetTimeout nat
  | SetInterval nat nat
  | JoinRoom string

section \<open>createGame\<close>

definition is_alnum :: "char \<Rightarrow> bool" where
  "is_alnum c = (let n = (of_char c :: nat) in
     (48 \<le> n \<and> n \<le> 57) \<or> (65 \<le> n \<and> n \<le> 90) \<or> (97 \<le> n \<and> n \<le> 122))"

text \<open>\<open>/^[A-Za-z0-9]{8}$/.test(code)\<close>.\<close>

definition isValidCode :: "string \<Rightarrow> bool" where
  "isValidCode code' = (length code' = 8 \<and> list_all is_alnum code')"

text \<open>
  \<open>toUpperCase\<close> on ASCII characters, which is all that \<open>createGame\<close> applies it to (after
  \<open>isValidCode\<close>): the letters \<open>a\<close> to \<open>z\<close> become \<open>A\<close> to \<open>Z\<close>.
\<close>

definition toUpperCase :: "string \<Rightarrow> string" where
  "toUpperCase s =
     map (\<lambda>c. let n = (of_char c :: nat) in if 97 \<le> n \<and> n \<le> 122 then char_of (n - 32) else c) s"

text \<open>The character map of \<open>toUpperCase\<close>, for the proofs.\<close>

definition upper_char :: "char \<Rightarrow> char" where
  "upper_char c = (let n = (of_char c :: nat) in if 97 \<le> n \<and> n \<le> 122 then char_of (n - 32) else c)"

text \<open>
  The words of the specification about codes, stated on character codes and without
  \<open>toUpperCase\<close>: a character of a stored code is a digit or an upper-case letter; two
  characters are the same letter when they are equal or are one letter in its two cases
  (codes 32 apart); two codes are the same code in any letter case when they are so
  character by character.
\<close>

definition is_upper_alnum :: "char \<Rightarrow> bool" where
  "is_upper_alnum c = (let n = (of_char c :: nat) in (48 \<le> n \<and> n \<le> 57) \<or> (65 \<le> n \<and> n \<le> 90))"

definition is_letter :: "char \<Rightarrow> bool" where
  "is_letter c = (let n = (of_char c :: nat) in (65 \<le> n \<and> n \<le> 90) \<or> (97 \<le> n \<and> n \<le> 122))"

definition same_letter :: "char \<Rightarrow> char \<Rightarrow> bool" where
  "same_letter a b =
     (a = b \<or> (is_letter a \<and> is_letter b \<and>
        ((of_char a :: nat) + 32 = of_char b \<or> (of_char b :: nat) + 32 = of_char a)))"

definition same_code :: "string \<Rightarrow> string \<Rightarrow> bool" where
  "same_code c d = list_all2 same_letter c d"

text \<open>The connection: \<open>socket.id\<close> and the attribute \<open>socket.gameCode\<close>.\<close>

record socket =
  socket_id :: string
  gameCode :: "string option"

text \<open>The registry \<open>games\<close>, a \<open>Map\<close> from codes to games, only ever read by key.\<close>

type_synonym registry = "string \<rightharpoonup> game"

definition createGame :: "registry \<Rightarrow> socket \<Rightarrow> string \<Rightarrow> registry \<times> socket \<times> effect list" where
  "createGame games sock code' =
     (if \<not> isValidCode code'
      then (games, sock, [Emit (ErrorMsg ''Game code must be exactly 8 alphanumeric characters'')])
      else (let upperCode = toUpperCase code' in
            if games upperCode \<noteq> None
            then (games, sock, [Emit (ErrorMsg ''A game with this code already exists'')])
            else (games(upperCode \<mapsto> new_Game upperCode (socket_id sock)),
                  sock\<lparr>gameCode := Some upperCode\<rparr>,
                  [JoinRoom upperCode, Emit (GameCreated upperCode True)])))"

section \<open>The handlers of one room\<close>

text \<open>
  Every other handler starts with \<open>const game = games.get(socket.gameCode); if (!game) return;\<close>
  and then works on that one game object. The functions below are the handlers after this
  lookup: they take the game and return it as the handler leaves it, with the effects in the
  order of the code. A handler that raises returns \<open>Inl\<close>.
\<close>

text \<open>
  \<open>String.prototype.trim\<close> strips white space at both ends; of the characters of a
  \<open>string\<close> here (code units below 256) these are tab, line feed, vertical tab, form feed,
  carriage return, space and the no-break space.
\<close>

definition is_whitespace :: "char \<Rightarrow> bool" where
  "is_whitespace c = (of_char c \<in> {9, 10, 11, 12, 13, 32, 160 :: nat})"

definition trim :: "string \<Rightarrow> string" where
  "trim s = rev (dropWhile is_whitespace (rev (dropWhile is_whitespace s)))"

definition setName :: "game \<Rightarrow> string \<Rightarrow> string \<Rightarrow> game \<times> effect list" where
  "setName g sid rawName =
     (let trimmedName = take 20 (trim rawName) in
      if trimmedName = [] then (g, [Emit (ErrorMsg ''Please enter a valid name'')])
      else (let g' = addPlayer g sid trimmedName in (g', [Broadcast (PlayerList (getPlayerList g'))])))"

definition startGame :: "game \<Rightarrow> string \<Rightarrow> string \<Rightarrow> game \<times> effect list" where
  "startGame g sid gradeLevel' =
     (if sid \<noteq> hostId g then (g, [Emit (ErrorMsg ''Only the host can start the game'')])
      else if gradeLevel' \<notin> set [''6th'', ''7th'', ''8th'']
      then (g, [Emit (ErrorMsg ''Invalid grade level'')])
      else (g\<lparr>gradeLevel := Some gradeLevel', started := True\<rparr>,
            [Broadcast (GameStarted gradeLevel'), SetTimeout 1000]))"

text \<open>
  \<open>submitAnswer\<close>. \<open>player.score += 1\<close> changes the player object inside the map; reading
  \<open>game.currentQuestion.correctIndex\<close> raises when \<open>currentQuestion\<close> is \<open>null\<close>.
\<close>

definition submitAnswer :: "game \<Rightarrow> string \<Rightarrow> int \<Rightarrow> error + game \<times> effect list" where
  "submitAnswer g sid answerIndex =
     (if \<not> started g \<or> questionAnswered g then Inr (g, [])
      else case map_of (players g) sid of
        None \<Rightarrow> Inr (g, [])
      | Some player \<Rightarrow>
          (case currentQuestion g of
             None \<Rightarrow> Inl TypeError
           | Some cq \<Rightarrow>
               if answerIndex = correctIndex cq
               then (let player' = player\<lparr>score := score player + 1\<rparr>;
                         g' = g\<lparr>questionAnswered := True,
                                players := AList.update sid player' (players g)\<rparr>;
                         effs = [ClearInterval (timerInterval g),
                                 Broadcast (QuestionResult sid (name player') (correctIndex cq)
                                   (getPlayerList g'))]
                     in case checkWinner g' of
                          Some gameWinner \<Rightarrow>
                            Inr (g'\<lparr>winner := Some gameWinner\<rparr>,
                                 effs @ [Broadcast (GameOver gameWinner (getPlayerList g'))])
                        | None \<Rightarrow> Inr (g', effs @ [SetTimeout 3000]))
               else Inr (g, [])))"

definition playAgain :: "game \<Rightarrow> string \<Rightarrow> game \<times> effect list" where
  "playAgain g sid =
     (if sid \<noteq> hostId g then (g, [Emit (ErrorMsg ''Only the host can restart the game'')])
      else (let g' = g\<lparr>started := False, currentQuestion := None, questionIndex := 0,
                       usedQuestions := {}, questionAnswered := False, winner := None,
                       players := map (\<lambda>(k, p). (k, p\<lparr>score := 0\<rparr>)) (players g)\<rparr>
            in (g', [ClearInterval (timerInterval g), Broadcast (GameReset (getPlayerList g'))])))"

text \<open>
  What \<open>handleDisconnect\<close> does to the game object: the player is removed; when the host
  leaves, the timer is cleared and the room is deleted from the registry.
\<close>

definition leaveGame :: "game \<Rightarrow> string \<Rightarrow> game \<times> effect list" where
  "leaveGame g sid =
     (let g' = removePlayer g sid in
      if sid = hostId g' then (g', [ClearInterval (timerInterval g'), Broadcast HostLeft])
      else (g', [Broadcast (PlayerList (getPlayerList g'))]))"

text \<open>
  The callback of \<open>setInterval\<close> in \<open>sendNextQuestion\<close>, one tick of the countdown.
\<close>

definition countdownTick :: "game \<Rightarrow> error + game \<times> effect list" where
  "countdownTick g =
     (let g1 = g\<lparr>timeRemaining := timeRemaining g - 1\<rparr>;
          effs = [Broadcast (TimerUpdate (timeRemaining g1))]
      in if timeRemaining g1 \<le> 0
         then (if \<not> questionAnswered g1
               then (case currentQuestion g1 of
                       None \<Rightarrow> Inl TypeError
                     | Some cq \<Rightarrow>
                         Inr (g1\<lparr>questionAnswered := True\<rparr>,
                              effs @ [ClearInterval (timerInterval g1),
                                      Broadcast (TimeUp (correctIndex cq) (getPlayerList g1)),
                                      SetTimeout 3000]))
               else Inr (g1, effs @ [ClearInterval (timerInterval g1)]))
         else Inr (g1, effs))"

text \<open>
  \<open>sendNextQuestion\<close> for a game that is in the registry: \<open>r\<close> is the random value of the
  draw, \<open>rs\<close> those of the shuffle, \<open>h\<close> the handle that \<open>setInterval\<close> returns. A
  \<open>null\<close> from \<open>getRandomQuestion\<close> makes \<open>game.currentQuestion.answers\<close> raise.
\<close>

definition sendNextQuestion ::
  "bank \<Rightarrow> real \<Rightarrow> (nat \<Rightarrow> real) \<Rightarrow> nat \<Rightarrow> game \<Rightarrow> (error + game \<times> effect list) option" where
  "sendNextQuestion questions r rs h g =
     (if \<not> started g \<or> winner g \<noteq> None then Some (Inr (g, []))
      else case getRandomQuestion questions r (g\<lparr>questionAnswered := False\<rparr>) of
        None \<Rightarrow> None
      | Some (Inl e) \<Rightarrow> Some (Inl e)
      | Some (Inr (drawn, g1)) \<Rightarrow>
          (let g2 = g1\<lparr>currentQuestion := drawn, questionIndex := questionIndex g1 + 1,
                       timeRemaining := 15\<rparr>
           in case drawn of
                None \<Rightarrow> Some (Inl TypeError)
              | Some q \<Rightarrow>
                  (case shuffleAnswers rs (answers q) (correctIndex q) of
                     Inl e \<Rightarrow> Some (Inl e)
                   | Inr (shuffledAnswers, newCorrectIndex) \<Rightarrow>
                       (let q' = q\<lparr>answers := shuffledAnswers, correctIndex := newCorrectIndex\<rparr>;
                            g3 = g2\<lparr>currentQuestion := Some q'\<rparr>
                        in Some (Inr (g3\<lparr>timerInterval := Some h\<rparr>,
                             [Broadcast (NewQuestion (question q') (answers q') (strand q')
                                (questionIndex g3)),
                              ClearInterval (timerInterval g3),
                              SetInterval h 1000]))))))"

section \<open>The event loop on one room\<close>

text \<open>
  The event loop runs one handler or callback at a time. An event of a room is a message
  of a client (with the id of its socket) or a callback that fires.
\<close>

datatype event =
    SetName string string
  | StartGame string string
  | SubmitAnswer string int
  | PlayAgain string
  | LeaveGame string
  | NextQuestion real "nat \<Rightarrow> real" nat
  | TimerTick

fun handle :: "bank \<Rightarrow> game \<Rightarrow> event \<Rightarrow> (error + game \<times> effect list) option" where
  "handle questions g (SetName sid rawName) = Some (Inr (setName g sid rawName))"
| "handle questions g (StartGame sid gl) = Some (Inr (startGame g sid gl))"
| "handle questions g (SubmitAnswer sid answerIndex) = Some (submitAnswer g sid answerIndex)"
| "handle questions g (PlayAgain sid) = Some (Inr (playAgain g sid))"
| "handle questions g (LeaveGame sid) = Some (Inr (leaveGame g sid))"
| "handle questions g (NextQuestion r rs h) = sendNextQuestion questions r rs h g"
| "handle questions g TimerTick = Some (countdownTick g)"


text \<open>The game states that a room can be in: a new game, and any state after an event.\<close>

inductive reachable :: "bank \<Rightarrow> game \<Rightarrow> bool" for questions :: bank where
  created: "reachable questions (new_Game code' hostId')"
| after_event: "reachable questions g \<Longrightarrow> handle questions g e = Some (Inr (g', effs))
     \<Longrightarrow> reachable questions g'"

section \<open>Consecutive draws\<close>

text \<open>
  Whether the grade of the game is in the bank with no question at all, in any strand.
\<close>

definition empty_pool :: "bank \<Rightarrow> game \<Rightarrow> bool" where
  "empty_pool questions g =
     (case questions (property_key (gradeLevel g)) of None \<Rightarrow> False
      | Some gradeQuestions \<Rightarrow> allQuestions_of gradeQuestions = [])"

text \<open>
  Consecutive calls of \<open>getRandomQuestion\<close> on the same game, one per random value, with
  the list of the questions drawn.
\<close>

fun draws :: "bank \<Rightarrow> real list \<Rightarrow> game \<Rightarrow> (error + drawn_question option list \<times> game) option" where
  "draws questions [] g = Some (Inr ([], g))"
| "draws questions (r # rs) g =
     (case getRandomQuestion questions r g of
        None \<Rightarrow> None
      | Some (Inl e) \<Rightarrow> Some (Inl e)
      | Some (Inr (q, g1)) \<Rightarrow>
          (case draws questions rs g1 of
             None \<Rightarrow> None
           | Some (Inl e) \<Rightarrow> Some (Inl e)
           | Some (Inr (qs, g2)) \<Rightarrow> Some (Inr (q # qs, g2))))"

section \<open>The resolution of a question\<close>










section \<open>The score invariant\<close>

text \<open>
  No score is above 10, and when some player has 10 the winner is set and the question is
  closed.
\<close>

definition score_inv :: "game \<Rightarrow> bool" where
  "score_inv g =
     (list_all (\<lambda>p. score p \<le> 10) (getPlayerList g) \<and>
      (list_ex (\<lambda>p. 10 \<le> score p) (getPlayerList g) \<longrightarrow> winner g \<noteq> None \<and> questionAnswered g))"

section \<open>Example inputs\<close>

text \<open>A small bank with one grade, and a room of two players with an open question.\<close>

definition example_strands :: "(string \<times> bank_question list) list" where
  "example_strands = [(''algebra'',
       [\<lparr>question = ''2 + 2'', answers = [''3'', ''4''], correctIndex = 1\<rparr>,
        \<lparr>question = ''1 + 1'', answers = [''2'', ''5''], correctIndex = 0\<rparr>])]"

definition example_bank :: bank where
  "example_bank = (\<lambda>k. if k = ''6th'' then Some example_strands else None)"

text \<open>A bank whose one grade has a strand without questions.\<close>

definition example_empty_bank :: bank where
  "example_empty_bank = (\<lambda>k. if k = ''6th'' then Some [(''algebra'', [])] else None)"

definition example_room :: game where
  "example_room =
     \<lparr>code = ''ABCD1234'', hostId = ''h1'',
      players = [(''h1'', \<lparr>pid = ''h1'', name = ''Ann'', score = 9, isHost = True\<rparr>),
                 (''p2'', \<lparr>pid = ''p2'', name = ''Bob'', score = 3, isHost = False\<rparr>)],
      started = True, gradeLevel = Some ''6th'',
      currentQuestion = Some \<lparr>question = ''2 + 2'', answers = [''3'', ''4''], correctIndex = 1,
                                strand = ''algebra'', qid = ''algebra-0''\<rparr>,
      questionIndex = 1, usedQuestions = {''algebra-0''}, questionAnswered = False,
      timerInterval = Some 1, timeRemaining = 15, winner = None\<rparr>"

text \<open>
  A bank with one question, and the room of one player after \<open>k\<close> rounds that the player
  won, with the next question open.
\<close>

definition example_quiz :: bank where
  "example_quiz = (\<lambda>k. if k = ''6th''
     then Some [(''algebra'', [\<lparr>question = ''2 + 2'', answers = [''4''], correctIndex = 0\<rparr>])]
     else None)"

definition example_round :: "nat \<Rightarrow> game" where
  "example_round k =
     \<lparr>code = ''ABCD1234'', hostId = ''h1'',
      players = [(''h1'', \<lparr>pid = ''h1'', name = ''Ann'', score = k, isHost = True\<rparr>)],
      started = True, gradeLevel = Some ''6th'',
      currentQuestion = Some \<lparr>question = ''2 + 2'', answers = [''4''], correctIndex = 0,
                                strand = ''algebra'', qid = ''algebra-0''\<rparr>,
      questionIndex = Suc k, usedQuestions = {''algebra-0''}, questionAnswered = False,
      timerInterval = Some 7, timeRemaining = 15, winner = None\<rparr>"

text \<open>The room of \<open>example_round\<close> after \<open>startGame\<close>, before its first question.\<close>

definition example_started :: game where
  "example_started =
     (new_Game ''ABCD1234'' ''h1'')
       \<lparr>players := [(''h1'', \<lparr>pid = ''h1'', name = ''Ann'', score = 0, isHost = True\<rparr>)],
        gradeLevel := Some ''6th'', started := True\<rparr>"

section \<open>Properties of shuffleAnswers\<close>


lemma random_floor_range:
  "0 \<le> r \<Longrightarrow> r < 1 \<Longrightarrow> 0 < n \<Longrightarrow> 0 \<le> random_floor r n \<and> random_floor r n < int n"
proof -
  assume r: "0 \<le> r" "r < 1" and n: "0 < n"
  have "0 \<le> r * real n" using r by simp
  moreover have "r * real n < real n" using r n by simp
  ultimately show ?thesis unfolding random_floor_def by (simp add: floor_less_iff)
qed

lemma fisher_yates_mset:
  "\<forall>k. 0 \<le> rs k \<and> rs k < 1 \<Longrightarrow> i < length objs \<or> i = 0 \<Longrightarrow>
   \<exists>sh. fisher_yates rs i objs = Inr sh \<and> mset sh = mset objs"
proof (induction i arbitrary: objs)
  case 0
  then show ?case by simp
next
  case (Suc i)
  let ?j = "random_floor (rs (Suc i)) (Suc i + 1)"
  have j: "0 \<le> ?j \<and> ?j < int (Suc i + 1)"
    using Suc.prems(1) by (intro random_floor_range) auto
  let ?objs = "objs[Suc i := objs ! nat ?j, nat ?j := objs ! Suc i]"
  have len: "Suc i < length objs" using Suc.prems(2) by simp
  have nj: "nat ?j < length objs" using j len by linarith
  have m: "mset ?objs = mset objs" using len nj by (simp add: mset_swap)
  have "i < length ?objs \<or> i = 0" using len by simp
  from Suc.IH[OF Suc.prems(1) this] obtain sh where
    "fisher_yates rs i ?objs = Inr sh" "mset sh = mset ?objs" by blast
  then show ?case using j m by (simp add: Let_def)
qed

lemma findIndex_range: "\<exists>x\<in>set xs. P x \<Longrightarrow>
  0 \<le> findIndex P xs \<and> findIndex P xs < int (length xs) \<and> P (xs ! nat (findIndex P xs))"
proof (induction xs)
  case Nil
  then show ?case by simp
next
  case (Cons x xs)
  show ?case
  proof (cases "P x")
    case True
    then show ?thesis by simp
  next
    case False
    with Cons.prems have "\<exists>x\<in>set xs. P x" by simp
    from Cons.IH[OF this] show ?thesis using False by (simp add: Let_def nat_add_distrib)
  qed
qed

lemma set_answerObjs_from:
  "set (answerObjs_from k as ci) = {(as ! i, k + int i = ci) | i. i < length as}"
proof (induction as arbitrary: k)
  case Nil
  then show ?case by simp
next
  case (Cons a as)
  have "{((a # as) ! i, k + int i = ci) | i. i < length (a # as)} =
        insert (a, k = ci) {(as ! i, k + 1 + int i = ci) | i. i < length as}"
  proof (intro set_eqI iffI)
    fix x assume "x \<in> {((a # as) ! i, k + int i = ci) | i. i < length (a # as)}"
    then obtain i where i: "i < length (a # as)" "x = ((a # as) ! i, k + int i = ci)" by blast
    show "x \<in> insert (a, k = ci) {(as ! i, k + 1 + int i = ci) | i. i < length as}"
    proof (cases i)
      case 0
      then show ?thesis using i by simp
    next
      case (Suc m)
      then have "m < length as" "x = (as ! m, k + 1 + int m = ci)" using i by (simp_all add: algebra_simps)
      then show ?thesis by blast
    qed
  next
    fix x assume "x \<in> insert (a, k = ci) {(as ! i, k + 1 + int i = ci) | i. i < length as}"
    then consider "x = (a, k = ci)" | m where "m < length as" "x = (as ! m, k + 1 + int m = ci)" by blast
    then show "x \<in> {((a # as) ! i, k + int i = ci) | i. i < length (a # as)}"
    proof cases
      case 1
      then have "0 < length (a # as) \<and> x = ((a # as) ! 0, k + int 0 = ci)" by simp
      then show ?thesis by blast
    next
      case 2
      then have "Suc m < length (a # as) \<and> x = ((a # as) ! Suc m, k + int (Suc m) = ci)"
        by (simp add: algebra_simps)
      then show ?thesis by blast
    qed
  qed
  then show ?case using Cons.IH[of "k + 1"] by simp
qed

lemma map_fst_answerObjs_from: "map fst (answerObjs_from k as ci) = as"
  by (induction as arbitrary: k) auto

lemma length_answerObjs_from: "length (answerObjs_from k as ci) = length as"
  by (induction as arbitrary: k) auto

text \<open>
  Claim C3. For every answers array, every in-range correct index and all random values in
  \<open>[0, 1)\<close>, \<open>shuffleAnswers\<close> returns an array with the same multiset of elements as the
  input, and the element at the new correct index is the element that was at the original
  correct index.
\<close>

theorem shuffleAnswers_tracks_correct:
  assumes rnd: "\<forall>k. 0 \<le> rs k \<and> rs k < 1"
    and ci: "0 \<le> ci" "ci < int (length as)"
  shows "\<exists>sh nci. shuffleAnswers rs as ci = Inr (sh, nci) \<and> mset sh = mset as \<and>
           0 \<le> nci \<and> nci < int (length sh) \<and> sh ! nat nci = as ! nat ci"
proof -
  let ?objs = "answerObjs_from 0 as ci"
  have "length ?objs - 1 < length ?objs \<or> length ?objs - 1 = 0" by linarith
  from fisher_yates_mset[OF rnd this] obtain shuffled where
    fy: "fisher_yates rs (length ?objs - 1) ?objs = Inr shuffled" and m: "mset shuffled = mset ?objs"
    by blast
  have seteq: "set shuffled = set ?objs" using m by (rule mset_eq_setD)
  have "(as ! nat ci, True) \<in> set ?objs"
    using ci by (auto simp: set_answerObjs_from intro!: exI[of _ "nat ci"])
  then have ex: "\<exists>x\<in>set shuffled. snd x" using seteq by force
  note fi = findIndex_range[OF ex]
  let ?n = "findIndex snd shuffled"
  have "shuffled ! nat ?n \<in> set ?objs" using fi seteq by (metis nth_mem nat_less_iff)
  then obtain i where i: "i < length as" "shuffled ! nat ?n = (as ! i, int i = ci)"
    by (auto simp: set_answerObjs_from)
  with fi have "int i = ci" by simp
  then have el: "fst (shuffled ! nat ?n) = as ! nat ci" using i by auto
  have "mset (map fst shuffled) = mset (map fst ?objs)" using m by (metis mset_map)
  then have fstm: "mset (map fst shuffled) = mset as" by (simp only: map_fst_answerObjs_from)
  have "nat ?n < length shuffled" using fi by linarith
  then have "map fst shuffled ! nat ?n = as ! nat ci" using el by simp
  then show ?thesis using fy fstm fi by (simp add: shuffleAnswers_def Let_def)
qed


theorem shuffleAnswers_tracks_correct_witness:
  "(\<forall>k::nat. 0 \<le> (1/2::real) \<and> (1/2::real) < 1) \<and> (0::int) \<le> 2 \<and>
   (2::int) < int (length [''a'', ''b'', ''c'', ''d'']) \<and>
   shuffleAnswers (\<lambda>_. 1/2) [''a'', ''b'', ''c'', ''d''] 2 = Inr ([''a'', ''d'', ''b'', ''c''], 3) \<and>
   (\<exists>sh nci. shuffleAnswers (\<lambda>_. 1/2) [''a'', ''b'', ''c'', ''d''] 2 = Inr (sh, nci) \<and>
      mset sh = mset [''a'', ''b'', ''c'', ''d''] \<and> 0 \<le> nci \<and> nci < int (length sh) \<and>
      sh ! nat nci = [''a'', ''b'', ''c'', ''d''] ! nat 2)"
proof -
  have ev: "shuffleAnswers (\<lambda>_. 1/2) [''a'', ''b'', ''c'', ''d''] 2 = Inr ([''a'', ''d'', ''b'', ''c''], 3)"
    by (simp add: shuffleAnswers_def random_floor_def Let_def)
  show ?thesis
    using ev shuffleAnswers_tracks_correct [of "\<lambda>_. 1/2" 2 "[''a'', ''b'', ''c'', ''d'']"]
    by simp
qed

section \<open>submitAnswer without a player entry or without a question\<close>

text \<open>
  Claim C1. The claim says that \<open>submitAnswer\<close> is ignored whenever the room has no current
  question. The handler does not test \<open>currentQuestion\<close>: in the room that \<open>startGame\<close>
  leaves (started, no question drawn yet), the submission of a registered player reads
  \<open>correctIndex\<close> of \<open>null\<close> and raises.
\<close>

theorem submitAnswer_before_first_question_raises:
  "started (fst (startGame (fst (setName (new_Game ''ABCD1234'' ''h1'') ''h1'' ''Ann'')) ''h1'' ''6th'')) \<and>
   currentQuestion (fst (startGame (fst (setName (new_Game ''ABCD1234'' ''h1'') ''h1'' ''Ann'')) ''h1'' ''6th'')) = None \<and>
   submitAnswer (fst (startGame (fst (setName (new_Game ''ABCD1234'' ''h1'') ''h1'' ''Ann'')) ''h1'' ''6th'')) ''h1'' 0
     = Inl TypeError"
  by (simp add: submitAnswer_def startGame_def setName_def new_Game_def addPlayer_def trim_def
      is_whitespace_def Let_def)

theorem submitAnswer_before_first_question_raises_witness:
  "\<nexists>res. submitAnswer
      (fst (startGame (fst (setName (new_Game ''ABCD1234'' ''h1'') ''h1'' ''Ann'')) ''h1'' ''6th''))
      ''h1'' 0 = Inr res"
  using submitAnswer_before_first_question_raises by simp

text \<open>
  Claim C10. In a started room with an open, unanswered question, a submission from a
  connection without a player entry is ignored: the game is unchanged (scores, latch) and
  there is no effect at all (no broadcast, no \<open>clearInterval\<close>), also when the submitted
  index is the correct one.
\<close>

theorem submitAnswer_unregistered_ignored:
  assumes "started g" and "\<not> questionAnswered g" and "currentQuestion g = Some q"
    and "map_of (players g) sid = None"
  shows "submitAnswer g sid answerIndex = Inr (g, []) \<and>
         submitAnswer g sid (correctIndex q) = Inr (g, [])"
  using assms by (simp add: submitAnswer_def)

theorem submitAnswer_unregistered_ignored_witness:
  "started example_room \<and> \<not> questionAnswered example_room \<and>
   (\<exists>q. currentQuestion example_room = Some q \<and> correctIndex q = 1) \<and>
   map_of (players example_room) ''x9'' = None \<and>
   submitAnswer example_room ''x9'' 1 = Inr (example_room, [])"
proof -
  have h: "started example_room" "\<not> questionAnswered example_room"
    "currentQuestion example_room = Some \<lparr>question = ''2 + 2'', answers = [''3'', ''4''],
       correctIndex = 1, strand = ''algebra'', qid = ''algebra-0''\<rparr>"
    "map_of (players example_room) ''x9'' = None"
    by (simp_all add: example_room_def)
  show ?thesis
    using h submitAnswer_unregistered_ignored [OF h, of 1] by simp
qed

section \<open>setName\<close>

text \<open>
  Claim C9. When a connection already has a player entry with a positive score, a
  successful \<open>setName\<close> for it replaces the entry by a fresh player with score 0 (same place
  in the roster), and broadcasts the roster.
\<close>

theorem setName_resets_score:
  assumes "map_of (players g) sid = Some p" and "0 < score p" and "take 20 (trim rawName) \<noteq> []"
  shows "map_of (players (fst (setName g sid rawName))) sid =
           Some \<lparr>pid = sid, name = take 20 (trim rawName), score = 0, isHost = (sid = hostId g)\<rparr>
         \<and> map fst (players (fst (setName g sid rawName))) = map fst (players g)
         \<and> snd (setName g sid rawName) =
             [Broadcast (PlayerList (getPlayerList (fst (setName g sid rawName))))]"
proof -
  have "sid \<in> fst ` set (players g)" using assms(1) by (metis domI dom_map_of_conv_image_fst)
  then have "map fst (AList.update sid v (players g)) = map fst (players g)" for v
    by (simp add: update_keys)
  then show ?thesis using assms(3)
    by (simp add: setName_def addPlayer_def Let_def update_conv')
qed

theorem setName_resets_score_witness:
  "map_of (players example_room) ''h1'' = Some \<lparr>pid = ''h1'', name = ''Ann'', score = 9, isHost = True\<rparr> \<and>
   take 20 (trim '' Anna '') = ''Anna'' \<and>
   map_of (players (fst (setName example_room ''h1'' '' Anna ''))) ''h1'' =
     Some \<lparr>pid = ''h1'', name = ''Anna'', score = 0, isHost = True\<rparr>"
proof -
  have a: "map_of (players example_room) ''h1'' =
      Some \<lparr>pid = ''h1'', name = ''Ann'', score = 9, isHost = True\<rparr>"
    by (simp add: example_room_def)
  have b: "0 < score \<lparr>pid = ''h1'', name = ''Ann'', score = 9, isHost = True\<rparr>" by simp
  have t: "take 20 (trim '' Anna '') = ''Anna''"
    by (simp add: trim_def is_whitespace_def)
  then have c: "take 20 (trim '' Anna '') \<noteq> []" by simp
  have "hostId example_room = ''h1''" by (simp add: example_room_def)
  then show ?thesis
    using a t setName_resets_score [OF a b c] by simp
qed

section \<open>playAgain\<close>

lemma scores_reset: "\<forall>p\<in>set (map snd (map (\<lambda>(k, p). (k, p\<lparr>score := 0\<rparr>)) ps)). score p = 0"
  by (induction ps) auto



section \<open>createGame\<close>

lemma toUpperCase_map: "toUpperCase s = map upper_char s"
  by (simp add: toUpperCase_def upper_char_def)

lemma of_char_upper_char:
  "(of_char (upper_char c) :: nat) =
     (if 97 \<le> (of_char c :: nat) \<and> (of_char c :: nat) \<le> 122 then of_char c - 32 else of_char c)"
proof (cases "97 \<le> (of_char c :: nat) \<and> (of_char c :: nat) \<le> 122")
  case True
  then have "(of_char c - 32 :: nat) < 256" by linarith
  then have "(of_char (char_of (of_char c - 32 :: nat)) :: nat) = of_char c - 32" by simp
  moreover have "upper_char c = char_of (of_char c - 32 :: nat)"
    using True by (simp add: upper_char_def Let_def)
  ultimately show ?thesis using True by simp
next
  case False
  then have "upper_char c = c" by (auto simp: upper_char_def Let_def)
  with False show ?thesis by auto
qed

lemma char_eq_of_char: "(of_char a :: nat) = of_char b \<Longrightarrow> a = b"
  by (metis char_of_char)

lemma upper_char_alnum:
  assumes "is_alnum c" shows "is_upper_alnum (upper_char c)" and "same_letter c (upper_char c)"
proof -
  show "is_upper_alnum (upper_char c)"
    using assms by (auto simp: is_upper_alnum_def is_alnum_def Let_def of_char_upper_char)
  show "same_letter c (upper_char c)"
  proof (cases "97 \<le> (of_char c :: nat) \<and> (of_char c :: nat) \<le> 122")
    case True
    then show ?thesis
      by (auto simp: same_letter_def is_letter_def Let_def of_char_upper_char)
  next
    case False
    then have "upper_char c = c" by (auto simp: upper_char_def Let_def)
    then show ?thesis by (simp add: same_letter_def)
  qed
qed

lemma upper_char_same_letter:
  assumes "is_alnum a" and "is_alnum b"
  shows "upper_char a = upper_char b \<longleftrightarrow> same_letter a b"
proof
  assume "upper_char a = upper_char b"
  then have e: "(of_char (upper_char a) :: nat) = of_char (upper_char b)" by simp
  define na nb where "na = (of_char a :: nat)" and "nb = (of_char b :: nat)"
  have ab: "a = b" if "na = nb" using that unfolding na_def nb_def by (rule char_eq_of_char)
  from e have "(if 97 \<le> na \<and> na \<le> 122 then na - 32 else na) =
      (if 97 \<le> nb \<and> nb \<le> 122 then nb - 32 else nb)"
    by (simp only: of_char_upper_char na_def nb_def)
  moreover from assms have "(48 \<le> na \<and> na \<le> 57) \<or> (65 \<le> na \<and> na \<le> 90) \<or> (97 \<le> na \<and> na \<le> 122)"
    "(48 \<le> nb \<and> nb \<le> 57) \<or> (65 \<le> nb \<and> nb \<le> 90) \<or> (97 \<le> nb \<and> nb \<le> 122)"
    by (simp_all add: is_alnum_def Let_def na_def nb_def)
  ultimately have "na = nb \<or> (((65 \<le> na \<and> na \<le> 90) \<or> (97 \<le> na \<and> na \<le> 122)) \<and>
      ((65 \<le> nb \<and> nb \<le> 90) \<or> (97 \<le> nb \<and> nb \<le> 122)) \<and> (na + 32 = nb \<or> nb + 32 = na))"
    by (auto split: if_splits)
  then have "a = b \<or> (is_letter a \<and> is_letter b \<and>
        ((of_char a :: nat) + 32 = of_char b \<or> (of_char b :: nat) + 32 = of_char a))"
    using ab by (auto simp: is_letter_def Let_def na_def nb_def)
  then show "same_letter a b" by (simp add: same_letter_def)
next
  assume "same_letter a b"
  then have "(of_char (upper_char a) :: nat) = of_char (upper_char b)"
    by (auto simp: same_letter_def of_char_upper_char is_letter_def Let_def)
  then show "upper_char a = upper_char b" by (rule char_eq_of_char)
qed

lemma toUpperCase_same_code:
  assumes "list_all is_alnum c" and "list_all is_alnum d" and "length c = length d"
  shows "toUpperCase c = toUpperCase d \<longleftrightarrow> same_code c d"
  using assms(3,1,2)
  by (induction c d rule: list_induct2)
     (simp_all add: toUpperCase_map same_code_def upper_char_same_letter)

lemma toUpperCase_valid:
  assumes "list_all is_alnum c"
  shows "list_all is_upper_alnum (toUpperCase c) \<and> same_code c (toUpperCase c)"
  using assms
  by (induction c) (simp_all add: toUpperCase_map same_code_def upper_char_alnum)

text \<open>
  Claim C6. For a valid code whose upper-cased form is not yet registered, \<open>createGame\<close>
  registers a new game (code, host, empty roster, not started) under the upper-cased
  code: the 8 characters of the key are digits and upper-case letters, letter by letter
  the same as the code's. After that, \<open>createGame\<close> with a valid code that is the same code
  in any letter case reports the duplicate and leaves the registry unchanged, while the key
  of every other valid code is as free as it was; a code that fails the format check
  reports the invalid code and registers nothing.
\<close>

theorem createGame_once:
  assumes valid: "isValidCode c" and first: "games (toUpperCase c) = None"
  shows "length (toUpperCase c) = 8 \<and> list_all is_upper_alnum (toUpperCase c) \<and>
         same_code c (toUpperCase c) \<and>
         createGame games sock c =
           (games(toUpperCase c \<mapsto>
              \<lparr>code = toUpperCase c, hostId = socket_id sock, players = [], started = False,
               gradeLevel = None, currentQuestion = None, questionIndex = 0, usedQuestions = {},
               questionAnswered = False, timerInterval = None, timeRemaining = 15,
               winner = None\<rparr>),
            sock\<lparr>gameCode := Some (toUpperCase c)\<rparr>,
            [JoinRoom (toUpperCase c), Emit (GameCreated (toUpperCase c) True)]) \<and>
         (\<forall>c2 sock2. isValidCode c2 \<and> same_code c c2 \<longrightarrow>
            createGame (fst (createGame games sock c)) sock2 c2 =
              (fst (createGame games sock c), sock2,
               [Emit (ErrorMsg ''A game with this code already exists'')])) \<and>
         (\<forall>c2. isValidCode c2 \<and> \<not> same_code c c2 \<longrightarrow>
            fst (createGame games sock c) (toUpperCase c2) = games (toUpperCase c2)) \<and>
         (\<forall>c3 sock3 games3. \<not> isValidCode c3 \<longrightarrow>
            createGame games3 sock3 c3 =
              (games3, sock3,
               [Emit (ErrorMsg ''Game code must be exactly 8 alphanumeric characters'')]))"
proof -
  from valid have v: "length c = 8" "list_all is_alnum c" by (simp_all add: isValidCode_def)
  have len: "length (toUpperCase c) = 8" using v(1) by (simp add: toUpperCase_def)
  note up = toUpperCase_valid[OF v(2)]
  have created: "createGame games sock c =
           (games(toUpperCase c \<mapsto>
              \<lparr>code = toUpperCase c, hostId = socket_id sock, players = [], started = False,
               gradeLevel = None, currentQuestion = None, questionIndex = 0, usedQuestions = {},
               questionAnswered = False, timerInterval = None, timeRemaining = 15,
               winner = None\<rparr>),
            sock\<lparr>gameCode := Some (toUpperCase c)\<rparr>,
            [JoinRoom (toUpperCase c), Emit (GameCreated (toUpperCase c) True)])"
    using valid first by (simp add: createGame_def new_Game_def Let_def)
  have same: "toUpperCase c2 = toUpperCase c \<longleftrightarrow> same_code c c2" if "isValidCode c2" for c2
  proof -
    from that have "length c2 = 8" "list_all is_alnum c2" by (simp_all add: isValidCode_def)
    with v toUpperCase_same_code[of c c2] show ?thesis by auto
  qed
  have dup: "\<forall>c2 sock2. isValidCode c2 \<and> same_code c c2 \<longrightarrow>
            createGame (fst (createGame games sock c)) sock2 c2 =
              (fst (createGame games sock c), sock2,
               [Emit (ErrorMsg ''A game with this code already exists'')])"
    using same by (simp add: created) (simp add: createGame_def Let_def)
  have other: "\<forall>c2. isValidCode c2 \<and> \<not> same_code c c2 \<longrightarrow>
            fst (createGame games sock c) (toUpperCase c2) = games (toUpperCase c2)"
    using same by (simp add: created)
  have invalid: "\<forall>c3 sock3 games3. \<not> isValidCode c3 \<longrightarrow>
            createGame games3 sock3 c3 =
              (games3, sock3,
               [Emit (ErrorMsg ''Game code must be exactly 8 alphanumeric characters'')])"
    by (simp add: createGame_def)
  from len up created dup other invalid show ?thesis by (intro conjI) simp_all
qed

theorem createGame_once_witness:
  "isValidCode ''abcd1234'' \<and> isValidCode ''ABcd1234'' \<and> isValidCode ''wxyz5678'' \<and>
   \<not> isValidCode ''abcd123!'' \<and>
   same_code ''abcd1234'' ''ABcd1234'' \<and> \<not> same_code ''abcd1234'' ''wxyz5678'' \<and>
   toUpperCase ''abcd1234'' = ''ABCD1234'' \<and> toUpperCase ''wxyz5678'' = ''WXYZ5678'' \<and>
   createGame Map.empty \<lparr>socket_id = ''h1'', gameCode = None\<rparr> ''abcd1234'' =
     ([''ABCD1234'' \<mapsto>
         \<lparr>code = ''ABCD1234'', hostId = ''h1'', players = [], started = False,
          gradeLevel = None, currentQuestion = None, questionIndex = 0, usedQuestions = {},
          questionAnswered = False, timerInterval = None, timeRemaining = 15, winner = None\<rparr>],
      \<lparr>socket_id = ''h1'', gameCode = Some ''ABCD1234''\<rparr>,
      [JoinRoom ''ABCD1234'', Emit (GameCreated ''ABCD1234'' True)]) \<and>
   createGame (fst (createGame Map.empty \<lparr>socket_id = ''h1'', gameCode = None\<rparr> ''abcd1234''))
       \<lparr>socket_id = ''p2'', gameCode = None\<rparr> ''ABcd1234'' =
     (fst (createGame Map.empty \<lparr>socket_id = ''h1'', gameCode = None\<rparr> ''abcd1234''),
      \<lparr>socket_id = ''p2'', gameCode = None\<rparr>,
      [Emit (ErrorMsg ''A game with this code already exists'')]) \<and>
   fst (createGame Map.empty \<lparr>socket_id = ''h1'', gameCode = None\<rparr> ''abcd1234'') ''WXYZ5678''
     = None \<and>
   createGame Map.empty \<lparr>socket_id = ''h1'', gameCode = None\<rparr> ''abcd123!'' =
     (Map.empty, \<lparr>socket_id = ''h1'', gameCode = None\<rparr>,
      [Emit (ErrorMsg ''Game code must be exactly 8 alphanumeric characters'')])"
proof -
  let ?s = "\<lparr>socket_id = ''h1'', gameCode = None\<rparr>"
  have v: "isValidCode ''abcd1234''" "isValidCode ''ABcd1234''" "\<not> isValidCode ''abcd123!''"
    "isValidCode ''wxyz5678''"
    by code_simp+
  have u: "toUpperCase ''abcd1234'' = ''ABCD1234''" "toUpperCase ''wxyz5678'' = ''WXYZ5678''"
    by code_simp+
  have sc: "same_code ''abcd1234'' ''ABcd1234''" "\<not> same_code ''abcd1234'' ''wxyz5678''"
    by (simp_all add: same_code_def same_letter_def is_letter_def)
  have e: "(Map.empty :: registry) (toUpperCase ''abcd1234'') = None" by simp
  note T = createGame_once [OF v(1) e, of ?s]
  have a: "createGame Map.empty ?s ''abcd1234'' =
     ([''ABCD1234'' \<mapsto>
         \<lparr>code = ''ABCD1234'', hostId = ''h1'', players = [], started = False,
          gradeLevel = None, currentQuestion = None, questionIndex = 0, usedQuestions = {},
          questionAnswered = False, timerInterval = None, timeRemaining = 15, winner = None\<rparr>],
      \<lparr>socket_id = ''h1'', gameCode = Some ''ABCD1234''\<rparr>,
      [JoinRoom ''ABCD1234'', Emit (GameCreated ''ABCD1234'' True)])"
    using T u by simp
  have b: "createGame (fst (createGame Map.empty ?s ''abcd1234''))
       \<lparr>socket_id = ''p2'', gameCode = None\<rparr> ''ABcd1234'' =
     (fst (createGame Map.empty ?s ''abcd1234''), \<lparr>socket_id = ''p2'', gameCode = None\<rparr>,
      [Emit (ErrorMsg ''A game with this code already exists'')])"
    using T v(2) sc(1) by blast
  have o: "fst (createGame Map.empty ?s ''abcd1234'') ''WXYZ5678'' = None"
  proof -
    from T v(4) sc(2) have "fst (createGame Map.empty ?s ''abcd1234'') (toUpperCase ''wxyz5678'')
        = Map.empty (toUpperCase ''wxyz5678'')" by blast
    then show ?thesis by (simp add: u)
  qed
  have c: "createGame Map.empty ?s ''abcd123!'' =
     (Map.empty, ?s, [Emit (ErrorMsg ''Game code must be exactly 8 alphanumeric characters'')])"
    using T v(3) by blast
  show ?thesis using v sc u a b o c by (intro conjI)
qed

section \<open>Properties of getRandomQuestion\<close>

lemma random_floor_nat:
  "0 \<le> r \<Longrightarrow> r < 1 \<Longrightarrow> 0 < n \<Longrightarrow> nat (random_floor r n) < n"
  using random_floor_range[of r n] by linarith

lemma getRandomQuestion_never_returns_aux:
  assumes "getRandomQuestion questions r g = Some res"
  shows "\<not> empty_pool questions g"
proof (rule getRandomQuestion.raw_induct
    [where P = "\<lambda>questions r g res. \<not> empty_pool questions g", OF _ assms])
  fix f :: "bank \<Rightarrow> real \<Rightarrow> game \<Rightarrow> (error + drawn_question option \<times> game) option"
    and questions r g res
  assume IH: "\<And>questions r g res. f questions r g = Some res \<Longrightarrow> \<not> empty_pool questions g"
    and eq: "(case questions (property_key (gradeLevel g)) of
        None \<Rightarrow> Some (Inr (None, g))
      | Some gradeQuestions \<Rightarrow>
          (let allQuestions = allQuestions_of gradeQuestions;
               availableQuestions = filter (\<lambda>q. qid q \<notin> usedQuestions g) allQuestions
           in if length availableQuestions = 0
              then f questions r (g\<lparr>usedQuestions := {}\<rparr>)
              else (let randomIndex = random_floor r (length availableQuestions) in
                    if 0 \<le> randomIndex \<and> randomIndex < int (length availableQuestions)
                    then (let q = availableQuestions ! nat randomIndex in
                          Some (Inr (Some q, g\<lparr>usedQuestions := insert (qid q) (usedQuestions g)\<rparr>)))
                    else Some (Inl TypeError)))) = Some res"
  show "\<not> empty_pool questions g"
  proof
    assume e: "empty_pool questions g"
    then obtain gq where a: "questions (property_key (gradeLevel g)) = Some gq" "allQuestions_of gq = []"
      by (auto simp: empty_pool_def split: option.splits)
    with eq have "f questions r (g\<lparr>usedQuestions := {}\<rparr>) = Some res"
      by (simp add: Let_def)
    from IH[OF this] a show False by (simp add: empty_pool_def)
  qed
qed

lemma getRandomQuestion_never_returns:
  assumes "questions (property_key (gradeLevel g)) = Some gq" and "allQuestions_of gq = []"
  shows "getRandomQuestion questions r g = None"
proof (cases "getRandomQuestion questions r g")
  case None
  then show ?thesis .
next
  case (Some res)
  from getRandomQuestion_never_returns_aux[OF this] assms show ?thesis
    by (simp add: empty_pool_def)
qed

lemma getRandomQuestion_absent:
  "questions (property_key (gradeLevel g)) = None \<Longrightarrow>
   getRandomQuestion questions r g = Some (Inr (None, g))"
  by (subst getRandomQuestion.simps) simp

lemma getRandomQuestion_available:
  assumes q: "questions (property_key (gradeLevel g)) = Some gq"
    and av: "filter (\<lambda>q. qid q \<notin> usedQuestions g) (allQuestions_of gq) = avail" "avail \<noteq> []"
    and r: "0 \<le> r" "r < 1"
  shows "getRandomQuestion questions r g =
           Some (Inr (Some (avail ! nat (random_floor r (length avail))),
                      g\<lparr>usedQuestions := insert (qid (avail ! nat (random_floor r (length avail))))
                           (usedQuestions g)\<rparr>))"
proof -
  have "0 < length avail" using av(2) by simp
  from random_floor_range[OF r this] show ?thesis
    using q av by (subst getRandomQuestion.simps) (simp add: Let_def)
qed

lemma getRandomQuestion_exhausted:
  assumes q: "questions (property_key (gradeLevel g)) = Some gq"
    and av: "filter (\<lambda>q. qid q \<notin> usedQuestions g) (allQuestions_of gq) = []"
  shows "getRandomQuestion questions r g = getRandomQuestion questions r (g\<lparr>usedQuestions := {}\<rparr>)"
  using q av by (subst getRandomQuestion.simps) (simp add: Let_def)

text \<open>With at least one question in the grade, the call returns a question of the grade.\<close>

lemma getRandomQuestion_returns:
  assumes q: "questions (property_key (gradeLevel g)) = Some gq"
    and ne: "allQuestions_of gq \<noteq> []"
    and r: "0 \<le> r" "r < 1"
  shows "\<exists>dq g'. getRandomQuestion questions r g = Some (Inr (Some dq, g')) \<and>
           dq \<in> set (allQuestions_of gq)"
proof (cases "filter (\<lambda>q. qid q \<notin> usedQuestions g) (allQuestions_of gq) = []")
  case False
  let ?avail = "filter (\<lambda>q. qid q \<notin> usedQuestions g) (allQuestions_of gq)"
  have "nat (random_floor r (length ?avail)) < length ?avail"
    using False r by (intro random_floor_nat) auto
  then have "?avail ! nat (random_floor r (length ?avail)) \<in> set ?avail" by (rule nth_mem)
  then have "?avail ! nat (random_floor r (length ?avail)) \<in> set (allQuestions_of gq)" by simp
  with getRandomQuestion_available[of questions g gq ?avail r, OF q refl False r] show ?thesis by blast
next
  case True
  let ?g = "g\<lparr>usedQuestions := {}\<rparr>"
  let ?avail = "allQuestions_of gq"
  have q': "questions (property_key (gradeLevel ?g)) = Some gq" using q by simp
  have av: "filter (\<lambda>q. qid q \<notin> usedQuestions ?g) (allQuestions_of gq) = ?avail" by simp
  have "nat (random_floor r (length ?avail)) < length ?avail"
    using ne r by (intro random_floor_nat) auto
  then have "?avail ! nat (random_floor r (length ?avail)) \<in> set ?avail" by (rule nth_mem)
  with getRandomQuestion_available[of questions ?g gq ?avail r, OF q' av ne r]
    getRandomQuestion_exhausted[of questions g gq r, OF q True]
  show ?thesis by simp
qed

text \<open>
  Claim C2. The claim says that a grade with zero questions makes the draw fail with
  \<open>NoQuestionsAvailable\<close> instead of looping. The code returns \<open>null\<close> only when the bank has
  no entry for the grade; for a grade that is there with no question, the available pool
  is empty, the used set is cleared and the method calls itself again, without end: the
  call never returns, and neither does \<open>sendNextQuestion\<close>. (\<open>getRandomQuestion_returns\<close>
  above is the part of the claim that holds.)
\<close>

theorem getRandomQuestion_empty_grade_never_returns:
  "example_empty_bank (property_key (gradeLevel example_started)) = Some [(''algebra'', [])] \<and>
   allQuestions_of [(''algebra'', [])] = [] \<and>
   getRandomQuestion example_empty_bank 0 example_started = None \<and>
   sendNextQuestion example_empty_bank 0 (\<lambda>_. 0) 2 example_started = None"
proof -
  have a: "example_empty_bank (property_key (gradeLevel g)) = Some [(''algebra'', [])]"
    if "gradeLevel g = Some ''6th''" for g
    using that by (simp add: example_empty_bank_def property_key_def)
  have b: "allQuestions_of [(''algebra'', [])] = []" by simp
  have g1: "gradeLevel example_started = Some ''6th''"
    by (simp add: example_started_def)
  have g2: "gradeLevel (example_started\<lparr>questionAnswered := False\<rparr>) = Some ''6th''"
    by (simp add: example_started_def)
  have s: "started example_started" "winner example_started = None"
    by (simp_all add: example_started_def new_Game_def)
  show ?thesis
    using getRandomQuestion_never_returns[of example_empty_bank example_started, OF a[OF g1] b, of 0]
      getRandomQuestion_never_returns
        [of example_empty_bank "example_started\<lparr>questionAnswered := False\<rparr>", OF a[OF g2] b, of 0]
      a[OF g1] b s
    by (simp add: sendNextQuestion_def)
qed

theorem getRandomQuestion_empty_grade_never_returns_witness:
  "\<nexists>res. getRandomQuestion example_empty_bank 0 example_started = Some res"
  using getRandomQuestion_empty_grade_never_returns by simp

section \<open>Question ids and consecutive draws\<close>

lemma of_char_digit_char: "d < 10 \<Longrightarrow> of_char (digit_char d) = 48 + d"
  by (simp add: digit_char_def)

lemma digit_char_inj: "a < 10 \<Longrightarrow> b < 10 \<Longrightarrow> digit_char a = digit_char b \<Longrightarrow> a = b"
  by (metis of_char_digit_char add_left_cancel)

lemma digit_char_not_dash: "d < 10 \<Longrightarrow> digit_char d \<noteq> CHR ''-''"
proof
  assume d: "d < 10" and "digit_char d = CHR ''-''"
  then have "(of_char (digit_char d) :: nat) = of_char CHR ''-''" by simp
  with d show False by (simp add: of_char_digit_char)
qed

lemma string_of_nat_nonempty: "string_of_nat n \<noteq> []"
  by (subst string_of_nat.simps) simp

lemma string_of_nat_no_dash: "CHR ''-'' \<notin> set (string_of_nat n)"
proof (induction n rule: string_of_nat.induct)
  case (1 n)
  show ?case
  proof (cases "n < 10")
    case True
    then show ?thesis using digit_char_not_dash[of n]
      by (subst string_of_nat.simps) auto
  next
    case False
    then show ?thesis using 1 digit_char_not_dash[of "n mod 10"]
      by (subst string_of_nat.simps) auto
  qed
qed

lemma string_of_nat_inj: "string_of_nat n = string_of_nat m \<Longrightarrow> n = m"
proof (induction n arbitrary: m rule: string_of_nat.induct)
  case (1 n)
  show ?case
  proof (cases "n < 10")
    case n: True
    show ?thesis
    proof (cases "m < 10")
      case True
      with n 1(2) show ?thesis
        by (simp add: string_of_nat.simps[of n] string_of_nat.simps[of m] digit_char_inj)
    next
      case False
      with n 1(2) string_of_nat_nonempty[of "m div 10"] show ?thesis
        by (simp add: string_of_nat.simps[of n] string_of_nat.simps[of m])
    qed
  next
    case n: False
    show ?thesis
    proof (cases "m < 10")
      case True
      with n 1(2) string_of_nat_nonempty[of "n div 10"] show ?thesis
        by (simp add: string_of_nat.simps[of n] string_of_nat.simps[of m])
    next
      case False
      with n 1(2) have "string_of_nat (n div 10) = string_of_nat (m div 10)"
        and d: "digit_char (n mod 10) = digit_char (m mod 10)"
        by (simp_all add: string_of_nat.simps[of n] string_of_nat.simps[of m])
      from 1(1)[OF n this(1)] have "n div 10 = m div 10" .
      moreover have "n mod 10 = m mod 10" using d by (intro digit_char_inj) auto
      ultimately show ?thesis by (metis div_mult_mod_eq)
    qed
  qed
qed

lemma split_at_last_sep:
  "xs @ c # ys = xs' @ c # ys' \<Longrightarrow> c \<notin> set ys \<Longrightarrow> c \<notin> set ys' \<Longrightarrow> xs = xs' \<and> ys = ys'"
proof (induction xs arbitrary: xs')
  case Nil
  then show ?case by (cases xs') auto
next
  case (Cons x xs)
  then show ?case by (cases xs') auto
qed

lemma qid_inj:
  "s @ ''-'' @ string_of_nat i = s' @ ''-'' @ string_of_nat j \<Longrightarrow> s = s' \<and> i = j"
  using split_at_last_sep[of s "CHR ''-''" "string_of_nat i" s' "string_of_nat j"]
    string_of_nat_no_dash string_of_nat_inj by auto

lemma strand_questions_qid:
  "q \<in> set (strand_questions s k qs) \<Longrightarrow> \<exists>i\<ge>k. qid q = s @ ''-'' @ string_of_nat i"
proof (induction qs arbitrary: k)
  case Nil
  then show ?case by simp
next
  case (Cons a qs)
  from Cons.prems consider "qid q = s @ ''-'' @ string_of_nat k" | "q \<in> set (strand_questions s (Suc k) qs)"
    by auto
  then show ?case
  proof cases
    case 1
    then show ?thesis by blast
  next
    case 2
    from Cons.IH[OF this] show ?thesis using Suc_leD by blast
  qed
qed

lemma distinct_strand_questions: "distinct (map qid (strand_questions s k qs))"
proof (induction qs arbitrary: k)
  case Nil
  then show ?case by simp
next
  case (Cons a qs)
  have "s @ ''-'' @ string_of_nat k \<notin> qid ` set (strand_questions s (Suc k) qs)"
  proof
    assume "s @ ''-'' @ string_of_nat k \<in> qid ` set (strand_questions s (Suc k) qs)"
    then obtain q where "q \<in> set (strand_questions s (Suc k) qs)" "qid q = s @ ''-'' @ string_of_nat k"
      by auto
    with strand_questions_qid[of q s "Suc k" qs] obtain i where
      "Suc k \<le> i" "s @ ''-'' @ string_of_nat i = s @ ''-'' @ string_of_nat k" by auto
    with qid_inj[of s i s k] show False by simp
  qed
  then show ?case using Cons.IH[of "Suc k"] by simp
qed

lemma allQuestions_of_qid:
  "q \<in> set (allQuestions_of gq) \<Longrightarrow> \<exists>s\<in>fst ` set gq. \<exists>i. qid q = s @ ''-'' @ string_of_nat i"
proof (induction gq)
  case Nil
  then show ?case by simp
next
  case (Cons a gq)
  obtain s qs where a: "a = (s, qs)" by (cases a)
  from Cons.prems a consider "q \<in> set (strand_questions s 0 qs)" | "q \<in> set (allQuestions_of gq)"
    by auto
  then show ?case
  proof cases
    case 1
    from strand_questions_qid[OF this] show ?thesis using a by auto
  next
    case 2
    from Cons.IH[OF this] show ?thesis by auto
  qed
qed

lemma distinct_allQuestions_of:
  "distinct (map fst gq) \<Longrightarrow> distinct (map qid (allQuestions_of gq))"
proof (induction gq)
  case Nil
  then show ?case by simp
next
  case (Cons a gq)
  obtain s qs where a: "a = (s, qs)" by (cases a)
  have disj: "qid ` set (strand_questions s 0 qs) \<inter> qid ` set (allQuestions_of gq) = {}"
  proof (rule ccontr)
    assume "\<not> ?thesis"
    then obtain q1 q2 where q: "q1 \<in> set (strand_questions s 0 qs)" "q2 \<in> set (allQuestions_of gq)"
      "qid q1 = qid q2" by auto
    from strand_questions_qid[OF q(1)] obtain i where i: "qid q1 = s @ ''-'' @ string_of_nat i" by auto
    from allQuestions_of_qid[OF q(2)] obtain s' j where
      j: "s' \<in> fst ` set gq" "qid q2 = s' @ ''-'' @ string_of_nat j" by auto
    from i j q(3) qid_inj[of s i s' j] have "s = s'" by simp
    with j(1) Cons.prems a show False by simp
  qed
  from Cons a disj show ?case by (simp add: distinct_strand_questions)
qed

lemma length_filter_remove_one:
  "distinct (map f xs) \<Longrightarrow> x \<in> set xs \<Longrightarrow> length (filter (\<lambda>y. f y \<noteq> f x) xs) = length xs - 1"
proof (induction xs)
  case Nil
  then show ?case by simp
next
  case (Cons a xs)
  show ?case
  proof (cases "a = x")
    case True
    have "f a \<notin> f ` set xs" using Cons.prems(1) by simp
    then have "\<forall>y\<in>set xs. f y \<noteq> f x" using True by (metis imageI)
    then have "filter (\<lambda>y. f y \<noteq> f x) xs = xs" by (simp add: filter_id_conv)
    then show ?thesis using True by simp
  next
    case False
    with Cons.prems have x: "x \<in> set xs" "f a \<noteq> f x" by auto
    with Cons.IH Cons.prems(1) have "length (filter (\<lambda>y. f y \<noteq> f x) xs) = length xs - 1" by simp
    moreover have "0 < length xs" using x(1) by (cases xs) auto
    ultimately show ?thesis using x(2) by simp
  qed
qed

lemma draws_fresh:
  assumes bank: "questions (property_key gl) = Some gq" and dist: "distinct (map qid (allQuestions_of gq))"
  shows "gradeLevel g = gl \<Longrightarrow>
     length rs \<le> length (filter (\<lambda>q. qid q \<notin> usedQuestions g) (allQuestions_of gq)) \<Longrightarrow>
     \<forall>r\<in>set rs. 0 \<le> r \<and> r < 1 \<Longrightarrow>
     \<exists>ds g'. draws questions rs g = Some (Inr (map Some ds, g')) \<and> distinct (map qid ds) \<and>
        set ds \<subseteq> set (filter (\<lambda>q. qid q \<notin> usedQuestions g) (allQuestions_of gq)) \<and>
        length ds = length rs \<and> usedQuestions g' = usedQuestions g \<union> qid ` set ds"
proof (induction rs arbitrary: g)
  case Nil
  then show ?case by simp
next
  case (Cons r rs)
  let ?pool = "allQuestions_of gq"
  let ?avail = "filter (\<lambda>q. qid q \<notin> usedQuestions g) ?pool"
  let ?dq = "?avail ! nat (random_floor r (length ?avail))"
  let ?g1 = "g\<lparr>usedQuestions := insert (qid ?dq) (usedQuestions g)\<rparr>"
  have r: "0 \<le> r" "r < 1" using Cons.prems(3) by auto
  have ne: "?avail \<noteq> []" using Cons.prems(2) by auto
  have q: "questions (property_key (gradeLevel g)) = Some gq" using bank Cons.prems(1) by simp
  have step: "getRandomQuestion questions r g = Some (Inr (Some ?dq, ?g1))"
    by (rule getRandomQuestion_available[of questions g gq ?avail r, OF q refl ne r])
  have "nat (random_floor r (length ?avail)) < length ?avail"
    using ne r by (intro random_floor_nat) auto
  then have mem: "?dq \<in> set ?avail" by (rule nth_mem)
  have av1: "filter (\<lambda>q. qid q \<notin> usedQuestions ?g1) ?pool = filter (\<lambda>y. qid y \<noteq> qid ?dq) ?avail"
    by (auto intro: filter_cong)
  have "distinct (map qid ?avail)" using dist by (rule distinct_map_filter)
  from length_filter_remove_one[OF this mem]
  have len1: "length (filter (\<lambda>q. qid q \<notin> usedQuestions ?g1) ?pool) = length ?avail - 1"
    using av1 by simp
  have a: "gradeLevel ?g1 = gl" using Cons.prems(1) by simp
  have b: "length rs \<le> length (filter (\<lambda>q. qid q \<notin> usedQuestions ?g1) ?pool)"
    using len1 Cons.prems(2) by simp
  have c: "\<forall>r\<in>set rs. 0 \<le> r \<and> r < 1" using Cons.prems(3) by simp
  from Cons.IH[OF a b c] obtain ds g' where
    ds: "draws questions rs ?g1 = Some (Inr (map Some ds, g'))" "distinct (map qid ds)"
      "set ds \<subseteq> set (filter (\<lambda>q. qid q \<notin> usedQuestions ?g1) ?pool)"
      "length ds = length rs" "usedQuestions g' = usedQuestions ?g1 \<union> qid ` set ds"
    by blast
  have notin: "qid ?dq \<notin> qid ` set ds" using ds(3) by auto
  have sub: "set (?dq # ds) \<subseteq> set ?avail" using mem ds(3) by auto
  have "draws questions (r # rs) g = Some (Inr (map Some (?dq # ds), g'))"
    using step ds(1) by simp
  moreover have "distinct (map qid (?dq # ds))" using notin ds(2) by simp
  moreover have "length (?dq # ds) = length (r # rs)" using ds(4) by simp
  moreover have "usedQuestions g' = usedQuestions g \<union> qid ` set (?dq # ds)" using ds(5) by auto
  ultimately show ?case using sub by blast
qed

lemma draws_exhausted:
  assumes q: "questions (property_key (gradeLevel g)) = Some gq"
    and av: "filter (\<lambda>q. qid q \<notin> usedQuestions g) (allQuestions_of gq) = []"
  shows "draws questions (r # rs) g = draws questions (r # rs) (g\<lparr>usedQuestions := {}\<rparr>)"
  using getRandomQuestion_exhausted[of questions g gq r, OF q av] by simp

lemma repeat_only_after_clear:
  assumes q: "questions (property_key (gradeLevel g)) = Some gq"
    and res: "getRandomQuestion questions r g = Some (Inr (Some dq, g'))"
    and used: "qid dq \<in> usedQuestions g"
  shows "(\<forall>q\<in>set (allQuestions_of gq). qid q \<in> usedQuestions g) \<and> usedQuestions g' = {qid dq}"
proof (cases "filter (\<lambda>q. qid q \<notin> usedQuestions g) (allQuestions_of gq) = []")
  case True
  let ?pool = "allQuestions_of gq"
  let ?g = "g\<lparr>usedQuestions := {}\<rparr>"
  have all: "\<forall>q\<in>set ?pool. qid q \<in> usedQuestions g" using True by (simp add: filter_empty_conv)
  have eq: "getRandomQuestion questions r ?g = Some (Inr (Some dq, g'))"
    using getRandomQuestion_exhausted[of questions g gq r, OF q True] res by simp
  have ne: "?pool \<noteq> []"
  proof
    assume "?pool = []"
    from getRandomQuestion_never_returns[of questions g gq r, OF q this] res show False by simp
  qed
  have "usedQuestions g' = {qid dq}"
    using eq q ne by (subst (asm) getRandomQuestion.simps) (auto simp: Let_def split: if_splits)
  with all show ?thesis by simp
next
  case False
  let ?avail = "filter (\<lambda>q. qid q \<notin> usedQuestions g) (allQuestions_of gq)"
  from res q False have idx: "nat (random_floor r (length ?avail)) < length ?avail"
    and dq: "dq = ?avail ! nat (random_floor r (length ?avail))"
    by (subst (asm) getRandomQuestion.simps, auto simp: Let_def split: if_splits)+
  from idx have "?avail ! nat (random_floor r (length ?avail)) \<in> set ?avail" by (rule nth_mem)
  with dq have "qid dq \<notin> usedQuestions g" by simp
  with used show ?thesis by simp
qed

text \<open>
  Claim C7, as amended. For a grade with \<open>N \<ge> 1\<close> questions (strands being distinct
  property names), \<open>N\<close> consecutive draws that start a cycle (no id of the pool is in the
  used set, as in a new or reset game, or all are) return \<open>N\<close> questions with pairwise
  distinct ids, exactly the ids of the pool; and whenever a draw returns an id that was
  already in the used set, the pool was exhausted and that draw cleared the set, which then
  holds the new id only. (The claim had no condition on where the \<open>N\<close> draws start; draws
  that start in the middle of a cycle can repeat an id, as the example after the theorem
  shows.)
\<close>

theorem draws_distinct_until_exhausted:
  assumes q: "questions (property_key (gradeLevel g)) = Some gradeQuestions"
    and strands: "distinct (map fst gradeQuestions)"
    and ne: "allQuestions_of gradeQuestions \<noteq> []"
    and len: "length rs = length (allQuestions_of gradeQuestions)"
    and rnd: "\<forall>r\<in>set rs. 0 \<le> r \<and> r < 1"
    and fresh: "(\<forall>q\<in>set (allQuestions_of gradeQuestions). qid q \<notin> usedQuestions g) \<or>
                (\<forall>q\<in>set (allQuestions_of gradeQuestions). qid q \<in> usedQuestions g)"
  shows "(\<exists>ds g'. draws questions rs g = Some (Inr (map Some ds, g')) \<and>
            length ds = length (allQuestions_of gradeQuestions) \<and> distinct (map qid ds) \<and>
            set (map qid ds) = set (map qid (allQuestions_of gradeQuestions))) \<and>
         (\<forall>g0 r dq g1. questions (property_key (gradeLevel g0)) = Some gradeQuestions \<and>
            getRandomQuestion questions r g0 = Some (Inr (Some dq, g1)) \<and>
            qid dq \<in> usedQuestions g0 \<longrightarrow>
            (\<forall>q\<in>set (allQuestions_of gradeQuestions). qid q \<in> usedQuestions g0) \<and>
            usedQuestions g1 = {qid dq})"
proof -
  let ?pool = "allQuestions_of gradeQuestions"
  have dist: "distinct (map qid ?pool)" using strands by (rule distinct_allQuestions_of)
  have main: "\<exists>ds g'. draws questions rs g0 = Some (Inr (map Some ds, g')) \<and>
            length ds = length ?pool \<and> distinct (map qid ds) \<and> set (map qid ds) = set (map qid ?pool)"
    if g0: "gradeLevel g0 = gradeLevel g" "\<forall>q\<in>set ?pool. qid q \<notin> usedQuestions g0" for g0
  proof -
    have av: "filter (\<lambda>q. qid q \<notin> usedQuestions g0) ?pool = ?pool" using g0(2) by (simp add: filter_id_conv)
    have l: "length rs \<le> length (filter (\<lambda>q. qid q \<notin> usedQuestions g0) ?pool)" using av len by simp
    from draws_fresh[of questions "gradeLevel g" gradeQuestions g0 rs, OF q dist g0(1) l rnd]
    obtain ds g' where ds: "draws questions rs g0 = Some (Inr (map Some ds, g'))" "distinct (map qid ds)"
      "set ds \<subseteq> set ?pool" "length ds = length rs" using av by auto
    have "card (set (map qid ds)) = length ?pool" using distinct_card[OF ds(2)] ds(4) len by simp
    moreover have "card (set (map qid ?pool)) = length ?pool" using distinct_card[OF dist] by simp
    moreover have "set (map qid ds) \<subseteq> set (map qid ?pool)" using ds(3) by auto
    ultimately have "set (map qid ds) = set (map qid ?pool)"
      by (metis card_subset_eq List.finite_set)
    with ds len show ?thesis by auto
  qed
  have first: "\<exists>ds g'. draws questions rs g = Some (Inr (map Some ds, g')) \<and>
            length ds = length ?pool \<and> distinct (map qid ds) \<and> set (map qid ds) = set (map qid ?pool)"
    using fresh
  proof
    assume "\<forall>q\<in>set ?pool. qid q \<notin> usedQuestions g"
    with main[of g] show ?thesis by simp
  next
    assume a: "\<forall>q\<in>set ?pool. qid q \<in> usedQuestions g"
    then have av: "filter (\<lambda>q. qid q \<notin> usedQuestions g) ?pool = []" by (simp add: filter_empty_conv)
    obtain r rs' where rs: "rs = r # rs'" using len ne by (cases rs) auto
    have "draws questions rs g = draws questions rs (g\<lparr>usedQuestions := {}\<rparr>)"
      unfolding rs by (rule draws_exhausted[of questions g gradeQuestions, OF q av])
    with main[of "g\<lparr>usedQuestions := {}\<rparr>"] show ?thesis by simp
  qed
  have second: "\<forall>g0 r dq g1. questions (property_key (gradeLevel g0)) = Some gradeQuestions \<and>
            getRandomQuestion questions r g0 = Some (Inr (Some dq, g1)) \<and>
            qid dq \<in> usedQuestions g0 \<longrightarrow>
            (\<forall>q\<in>set ?pool. qid q \<in> usedQuestions g0) \<and> usedQuestions g1 = {qid dq}"
    using repeat_only_after_clear[of questions _ gradeQuestions] by blast
  from first second show ?thesis by blast
qed

lemma example_pool: "allQuestions_of example_strands =
  [\<lparr>question = ''2 + 2'', answers = [''3'', ''4''], correctIndex = 1, strand = ''algebra'', qid = ''algebra-0''\<rparr>,
   \<lparr>question = ''1 + 1'', answers = [''2'', ''5''], correctIndex = 0, strand = ''algebra'', qid = ''algebra-1''\<rparr>]"
  by code_simp

lemma example_key:
  "example_bank (property_key (gradeLevel example_room)) = Some example_strands"
  by (simp add: example_bank_def example_room_def property_key_def)

lemma example_draw1: "getRandomQuestion example_bank 0 (example_room\<lparr>usedQuestions := {}\<rparr>) =
  Some (Inr (Some \<lparr>question = ''2 + 2'', answers = [''3'', ''4''], correctIndex = 1, strand = ''algebra'', qid = ''algebra-0''\<rparr>,
     example_room\<lparr>usedQuestions := {''algebra-0''}\<rparr>))"
  by (subst getRandomQuestion.simps) (simp add: example_key example_pool Let_def random_floor_def)

lemma example_draw2: "getRandomQuestion example_bank (1/2) (example_room\<lparr>usedQuestions := {''algebra-0''}\<rparr>) =
  Some (Inr (Some \<lparr>question = ''1 + 1'', answers = [''2'', ''5''], correctIndex = 0, strand = ''algebra'', qid = ''algebra-1''\<rparr>,
     example_room\<lparr>usedQuestions := {''algebra-1'', ''algebra-0''}\<rparr>))"
  by (subst getRandomQuestion.simps) (simp add: example_key example_pool Let_def random_floor_def)

lemma example_draw3: "getRandomQuestion example_bank 0 (example_room\<lparr>usedQuestions := {''algebra-1'', ''algebra-0''}\<rparr>) =
  Some (Inr (Some \<lparr>question = ''2 + 2'', answers = [''3'', ''4''], correctIndex = 1, strand = ''algebra'', qid = ''algebra-0''\<rparr>,
     example_room\<lparr>usedQuestions := {''algebra-0''}\<rparr>))"
  apply (subst getRandomQuestion.simps)
  apply (simp add: example_key example_pool Let_def random_floor_def)
  apply (subst getRandomQuestion.simps) 
  apply (simp add: example_key example_pool Let_def random_floor_def)
  done

lemma example_draws: "draws example_bank [0, 1/2] (example_room\<lparr>usedQuestions := {}\<rparr>) =
  Some (Inr ([Some \<lparr>question = ''2 + 2'', answers = [''3'', ''4''], correctIndex = 1, strand = ''algebra'', qid = ''algebra-0''\<rparr>,
    Some \<lparr>question = ''1 + 1'', answers = [''2'', ''5''], correctIndex = 0, strand = ''algebra'', qid = ''algebra-1''\<rparr>],
     example_room\<lparr>usedQuestions := {''algebra-1'', ''algebra-0''}\<rparr>))"
  by (simp add: example_draw1 example_draw2)

theorem draws_distinct_until_exhausted_witness:
  "example_bank (property_key (gradeLevel (example_room\<lparr>usedQuestions := {}\<rparr>))) = Some example_strands \<and>
   distinct (map fst example_strands) \<and> allQuestions_of example_strands \<noteq> [] \<and>
   length [0, 1/2 :: real] = length (allQuestions_of example_strands) \<and>
   list_all (\<lambda>r. 0 \<le> r \<and> r < 1) [0, 1/2 :: real] \<and>
   usedQuestions (example_room\<lparr>usedQuestions := {}\<rparr>) = {} \<and>
   (\<exists>ds g'. draws example_bank [0, 1/2] (example_room\<lparr>usedQuestions := {}\<rparr>) =
        Some (Inr (map Some ds, g')) \<and>
      map qid ds = [''algebra-0'', ''algebra-1''] \<and> distinct (map qid ds)) \<and>
   (\<exists>dq g1. getRandomQuestion example_bank 0
        (example_room\<lparr>usedQuestions := {''algebra-1'', ''algebra-0''}\<rparr>) = Some (Inr (Some dq, g1)) \<and>
      qid dq = ''algebra-0'' \<and> usedQuestions g1 = {qid dq})"
proof -
  let ?g = "example_room\<lparr>usedQuestions := {}\<rparr>"
  let ?gfull = "example_room\<lparr>usedQuestions := {''algebra-1'', ''algebra-0''}\<rparr>"
  let ?qa = "\<lparr>question = ''2 + 2'', answers = [''3'', ''4''], correctIndex = 1,
              strand = ''algebra'', qid = ''algebra-0''\<rparr>"
  have h1: "example_bank (property_key (gradeLevel ?g)) = Some example_strands"
    by (simp add: example_key)
  have h1': "example_bank (property_key (gradeLevel ?gfull)) = Some example_strands"
    by (simp add: example_key)
  have h2: "distinct (map fst example_strands)" by (simp add: example_strands_def)
  have h3: "allQuestions_of example_strands \<noteq> []" by (simp add: example_pool)
  have h4: "length [0, 1/2 :: real] = length (allQuestions_of example_strands)"
    by (simp add: example_pool)
  have h5: "\<forall>r\<in>set [0, 1/2 :: real]. 0 \<le> r \<and> r < 1" by simp
  have h6: "\<forall>q\<in>set (allQuestions_of example_strands). qid q \<notin> usedQuestions ?g" by simp
  note T = draws_distinct_until_exhausted
    [of example_bank ?g example_strands "[0, 1/2]", OF h1 h2 h3 h4 h5 disjI1, OF h6]
  from T obtain ds g' where ds: "draws example_bank [0, 1/2] ?g = Some (Inr (map Some ds, g'))"
    "distinct (map qid ds)" by blast
  from ds(1)[unfolded example_draws] have "map Some ds = map Some [?qa, \<lparr>question = ''1 + 1'', answers = [''2'', ''5''],
      correctIndex = 0, strand = ''algebra'', qid = ''algebra-1''\<rparr>]"
    by simp
  then have m: "map qid ds = [''algebra-0'', ''algebra-1'']"
    by (simp only: inj_map_eq_map[OF inj_Some]) simp
  have first: "\<exists>ds g'. draws example_bank [0, 1/2] ?g = Some (Inr (map Some ds, g')) \<and>
      map qid ds = [''algebra-0'', ''algebra-1''] \<and> distinct (map qid ds)"
  proof (intro exI conjI)
    show "draws example_bank [0, 1/2] ?g = Some (Inr (map Some ds, g'))" by (rule ds(1))
    show "map qid ds = [''algebra-0'', ''algebra-1'']" by (rule m)
    show "distinct (map qid ds)" by (rule ds(2))
  qed
  have u: "qid ?qa \<in> usedQuestions ?gfull" by simp
  from T [THEN conjunct2, rule_format, of ?gfull 0 ?qa "example_room\<lparr>usedQuestions := {''algebra-0''}\<rparr>"]
    h1' example_draw3 u
  have "usedQuestions (example_room\<lparr>usedQuestions := {''algebra-0''}\<rparr>) = {qid ?qa}" by blast
  with example_draw3 have second: "\<exists>dq g1. getRandomQuestion example_bank 0 ?gfull = Some (Inr (Some dq, g1)) \<and>
      qid dq = ''algebra-0'' \<and> usedQuestions g1 = {qid dq}" by simp
  have h5': "list_all (\<lambda>r. 0 \<le> r \<and> r < 1) [0, 1/2 :: real]" by simp
  have h6': "usedQuestions ?g = {}" by simp
  show ?thesis using h1 h2 h3 h4 h5' h6' first second by blast
qed

text \<open>
  Two consecutive draws from a pool of two questions that start with one id used: the
  first takes the other question, the second finds the pool exhausted, clears the set and
  draws from the whole pool, here the same question again.
\<close>

theorem consecutive_draws_repeat_mid_cycle:
  "example_bank (property_key (gradeLevel example_room)) = Some example_strands \<and>
   distinct (map fst example_strands) \<and>
   length (allQuestions_of example_strands) = 2 \<and>
   usedQuestions example_room = {''algebra-0''} \<and>
   (\<exists>g'. draws example_bank [0, 1/2] example_room =
      Some (Inr ([Some \<lparr>question = ''1 + 1'', answers = [''2'', ''5''], correctIndex = 0,
                         strand = ''algebra'', qid = ''algebra-1''\<rparr>,
                  Some \<lparr>question = ''1 + 1'', answers = [''2'', ''5''], correctIndex = 0,
                         strand = ''algebra'', qid = ''algebra-1''\<rparr>], g')))"
proof -
  let ?q = "\<lparr>question = ''1 + 1'', answers = [''2'', ''5''], correctIndex = 0,
             strand = ''algebra'', qid = ''algebra-1''\<rparr>"
  have u: "usedQuestions example_room = {''algebra-0''}" by (simp add: example_room_def)
  have d1: "getRandomQuestion example_bank 0 example_room =
      Some (Inr (Some ?q, example_room\<lparr>usedQuestions := {''algebra-1'', ''algebra-0''}\<rparr>))"
    by (subst getRandomQuestion.simps) (simp add: example_key example_pool u Let_def random_floor_def)
  have d2: "getRandomQuestion example_bank (1/2)
        (example_room\<lparr>usedQuestions := {''algebra-1'', ''algebra-0''}\<rparr>) =
      Some (Inr (Some ?q, example_room\<lparr>usedQuestions := {''algebra-1''}\<rparr>))"
    apply (subst getRandomQuestion.simps)
    apply (simp add: example_key example_pool Let_def random_floor_def)
    apply (subst getRandomQuestion.simps)
    apply (simp add: example_key example_pool Let_def random_floor_def)
    done
  have "draws example_bank [0, 1/2] example_room =
      Some (Inr ([Some ?q, Some ?q], example_room\<lparr>usedQuestions := {''algebra-1''}\<rparr>))"
    by (simp add: d1 d2)
  then have "\<exists>g'. draws example_bank [0, 1/2] example_room = Some (Inr ([Some ?q, Some ?q], g'))"
    by (rule exI)
  moreover have "distinct (map fst example_strands)" by (simp add: example_strands_def)
  moreover have "length (allQuestions_of example_strands) = 2" by (simp add: example_pool)
  ultimately show ?thesis using example_key u by (intro conjI)
qed

section \<open>The winner\<close>

lemma set_values_update:
  "set (map snd (AList.update k v ps)) \<subseteq> insert v (set (map snd ps))"
  by (induction ps) auto

lemma set_values_delete: "set (map snd (AList.delete k ps)) \<subseteq> set (map snd ps)"
  by (induction ps) auto

lemma getRandomQuestion_changes_used_only:
  assumes "getRandomQuestion questions r g = Some res"
  shows "\<forall>dq g'. res = Inr (dq, g') \<longrightarrow> (\<exists>U. g' = g\<lparr>usedQuestions := U\<rparr>)"
proof (rule getRandomQuestion.raw_induct
    [where P = "\<lambda>questions r g res. \<forall>dq g'. res = Inr (dq, g') \<longrightarrow> (\<exists>U. g' = g\<lparr>usedQuestions := U\<rparr>)",
     OF _ assms])
  fix f :: "bank \<Rightarrow> real \<Rightarrow> game \<Rightarrow> (error + drawn_question option \<times> game) option"
    and questions r g res
  assume IH: "\<And>questions r g res. f questions r g = Some res \<Longrightarrow>
      \<forall>dq g'. res = Inr (dq, g') \<longrightarrow> (\<exists>U. g' = g\<lparr>usedQuestions := U\<rparr>)"
    and eq: "(case questions (property_key (gradeLevel g)) of
        None \<Rightarrow> Some (Inr (None, g))
      | Some gradeQuestions \<Rightarrow>
          (let allQuestions = allQuestions_of gradeQuestions;
               availableQuestions = filter (\<lambda>q. qid q \<notin> usedQuestions g) allQuestions
           in if length availableQuestions = 0
              then f questions r (g\<lparr>usedQuestions := {}\<rparr>)
              else (let randomIndex = random_floor r (length availableQuestions) in
                    if 0 \<le> randomIndex \<and> randomIndex < int (length availableQuestions)
                    then (let q = availableQuestions ! nat randomIndex in
                          Some (Inr (Some q, g\<lparr>usedQuestions := insert (qid q) (usedQuestions g)\<rparr>)))
                    else Some (Inl TypeError)))) = Some res"
  show "\<forall>dq g'. res = Inr (dq, g') \<longrightarrow> (\<exists>U. g' = g\<lparr>usedQuestions := U\<rparr>)"
  proof (cases "questions (property_key (gradeLevel g))")
    case None
    with eq have "res = Inr (None, g)" by simp
    moreover have "g = g\<lparr>usedQuestions := usedQuestions g\<rparr>" by simp
    ultimately show ?thesis by (metis Inr_inject prod.inject)
  next
    case (Some gq)
    show ?thesis
    proof (cases "filter (\<lambda>q. qid q \<notin> usedQuestions g) (allQuestions_of gq) = []")
      case True
      with eq Some have "f questions r (g\<lparr>usedQuestions := {}\<rparr>) = Some res" by (simp add: Let_def)
      from IH[OF this] show ?thesis by auto
    next
      case False
      with eq Some show ?thesis by (auto simp: Let_def split: if_splits)
    qed
  qed
qed

lemma sendNextQuestion_fields:
  assumes "sendNextQuestion questions r rs h g = Some (Inr (g', effs))"
  shows "players g' = players g \<and> winner g' = winner g \<and> started g' = started g \<and>
         (winner g \<noteq> None \<or> \<not> started g \<longrightarrow> g' = g \<and> effs = []) \<and>
         (winner g = None \<and> started g \<longrightarrow>
            \<not> questionAnswered g' \<and> currentQuestion g' \<noteq> None \<and> timeRemaining g' = 15 \<and>
            questionIndex g' = questionIndex g + 1 \<and> timerInterval g' = Some h)"
proof (cases "\<not> started g \<or> winner g \<noteq> None")
  case True
  with assms show ?thesis by (auto simp: sendNextQuestion_def)
next
  case False
  let ?g = "g\<lparr>questionAnswered := False\<rparr>"
  from False assms obtain dq g1 where d: "getRandomQuestion questions r ?g = Some (Inr (dq, g1))"
    by (auto simp: sendNextQuestion_def split: option.splits sum.splits)
  from getRandomQuestion_changes_used_only[OF d] obtain U where U: "g1 = ?g\<lparr>usedQuestions := U\<rparr>"
    by auto
  from False assms d U show ?thesis
    by (auto simp: sendNextQuestion_def Let_def split: option.splits sum.splits)
qed

lemma score_inv_iff:
  "score_inv g \<longleftrightarrow>
     (\<forall>p\<in>set (map snd (players g)). score p \<le> 10) \<and>
     ((\<exists>p\<in>set (map snd (players g)). 10 \<le> score p) \<longrightarrow> winner g \<noteq> None \<and> questionAnswered g)"
  by (simp add: score_inv_def getPlayerList_def list_all_iff list_ex_iff)

lemma find_update:
  "map_of ps k = Some v0 \<Longrightarrow> \<forall>x\<in>set (map snd ps). \<not> P x \<Longrightarrow> P v \<Longrightarrow>
   List.find P (map snd (AList.update k v ps)) = Some v"
  by (induction ps) (auto split: if_splits)

lemma score_inv_new_Game: "score_inv (new_Game c h)"
  by (simp add: score_inv_iff new_Game_def)

lemma score_inv_setName:
  assumes "score_inv g" shows "score_inv (fst (setName g sid raw))"
proof (cases "take 20 (trim raw) = []")
  case True
  with assms show ?thesis by (simp add: setName_def)
next
  case False
  let ?v = "\<lparr>pid = sid, name = take 20 (trim raw), score = 0, isHost = (sid = hostId g)\<rparr>"
  have "set (map snd (AList.update sid ?v (players g))) \<subseteq> insert ?v (set (map snd (players g)))"
    by (rule set_values_update)
  moreover have "score ?v = 0" by simp
  ultimately have "\<forall>p\<in>set (map snd (AList.update sid ?v (players g))).
      score p = 0 \<or> p \<in> set (map snd (players g))" by auto
  with assms False show ?thesis
    unfolding score_inv_iff by (simp add: setName_def addPlayer_def Let_def) fastforce
qed

lemma score_inv_startGame:
  "score_inv g \<Longrightarrow> score_inv (fst (startGame g sid gl))"
  by (simp add: score_inv_iff startGame_def)

lemma score_inv_playAgain:
  "score_inv g \<Longrightarrow> score_inv (fst (playAgain g sid))"
  using scores_reset[of "players g"]
  by (auto simp: score_inv_iff playAgain_def Let_def)

lemma score_inv_leaveGame:
  "score_inv g \<Longrightarrow> score_inv (fst (leaveGame g sid))"
  using set_values_delete[of sid "players g"]
  unfolding score_inv_iff by (simp add: leaveGame_def removePlayer_def Let_def) fastforce

lemma score_inv_countdownTick:
  "score_inv g \<Longrightarrow> countdownTick g = Inr (g', effs) \<Longrightarrow> score_inv g'"
  unfolding score_inv_iff
  by (auto simp: countdownTick_def Let_def split: if_splits option.splits)

lemma score_inv_sendNextQuestion:
  assumes "score_inv g" and "sendNextQuestion questions r rs h g = Some (Inr (g', effs))"
  shows "score_inv g'"
proof -
  note f = sendNextQuestion_fields[OF assms(2)]
  show ?thesis
  proof (cases "winner g \<noteq> None \<or> \<not> started g")
    case True
    with f have "g' = g" by blast
    with assms(1) show ?thesis by simp
  next
    case False
    with assms(1) have "\<not> (\<exists>p\<in>set (map snd (players g)). 10 \<le> score p)"
      by (auto simp: score_inv_iff)
    with f assms(1) show ?thesis by (simp add: score_inv_iff)
  qed
qed

text \<open>What a counted submission does, in a state with the invariant.\<close>

lemma submitAnswer_counted_ex:
  assumes res: "submitAnswer g sid idx = Inr (g', effs)" and ne: "effs \<noteq> []"
  shows "\<exists>p0 cq. map_of (players g) sid = Some p0 \<and> currentQuestion g = Some cq"
  using assms by (auto simp: submitAnswer_def split: if_splits option.splits)

lemma submitAnswer_counted:
  assumes inv: "score_inv g"
    and res: "submitAnswer g sid idx = Inr (g', effs)"
    and ne: "effs \<noteq> []"
    and p0: "map_of (players g) sid = Some p0"
    and cq: "currentQuestion g = Some cq"
  shows "idx = correctIndex cq" and "started g" and "\<not> questionAnswered g" and "score p0 \<le> 9"
    and "players g' = AList.update sid (p0\<lparr>score := score p0 + 1\<rparr>) (players g)"
    and "questionAnswered g'"
    and "score p0 = 9 \<Longrightarrow> winner g' = Some (p0\<lparr>score := 10\<rparr>)"
    and "score p0 = 9 \<Longrightarrow> effs = [ClearInterval (timerInterval g),
                      Broadcast (QuestionResult sid (name p0) (correctIndex cq) (getPlayerList g')),
                      Broadcast (GameOver (p0\<lparr>score := 10\<rparr>) (getPlayerList g'))]"
    and "score p0 < 9 \<Longrightarrow> winner g' = winner g"
    and "score p0 < 9 \<Longrightarrow> effs = [ClearInterval (timerInterval g),
                      Broadcast (QuestionResult sid (name p0) (correctIndex cq) (getPlayerList g')),
                      SetTimeout 3000]"
proof -
  from res ne show g: "started g" "\<not> questionAnswered g"
    by (auto simp: submitAnswer_def split: if_splits)
  from res ne g p0 cq show idx: "idx = correctIndex cq"
    by (auto simp: submitAnswer_def split: if_splits)
  from inv g have low: "\<forall>x\<in>set (map snd (players g)). \<not> 10 \<le> score x"
    by (auto simp: score_inv_iff)
  have "p0 \<in> set (map snd (players g))" using p0 by (metis map_of_SomeD set_zip_rightD zip_map_fst_snd)
  with low show p09: "score p0 \<le> 9" by fastforce
  let ?p = "p0\<lparr>score := score p0 + 1\<rparr>"
  let ?g1 = "g\<lparr>questionAnswered := True, players := AList.update sid ?p (players g)\<rparr>"
  have nine: "checkWinner ?g1 = Some ?p" if "score p0 = 9"
  proof -
    from that have "10 \<le> score ?p" by simp
    from find_update[of "players g" sid p0 "\<lambda>p. 10 \<le> score p" ?p, OF p0 low this]
    show ?thesis by (simp add: checkWinner_def)
  qed
  have less: "checkWinner ?g1 = None" if "score p0 < 9"
  proof -
    have "set (map snd (AList.update sid ?p (players g))) \<subseteq> insert ?p (set (map snd (players g)))"
      by (rule set_values_update)
    with low that have "\<forall>x\<in>set (map snd (AList.update sid ?p (players g))). \<not> 10 \<le> score x"
      by fastforce
    then show ?thesis by (simp add: checkWinner_def find_None_iff)
  qed
  have cases: "score p0 = 9 \<or> score p0 < 9" using p09 by linarith
  from res g p0 cq idx nine less cases
  show "players g' = AList.update sid ?p (players g)" "questionAnswered g'"
    by (auto simp: submitAnswer_def Let_def)
  from res g p0 cq idx nine
  show "score p0 = 9 \<Longrightarrow> winner g' = Some (p0\<lparr>score := 10\<rparr>)"
    "score p0 = 9 \<Longrightarrow> effs = [ClearInterval (timerInterval g),
                      Broadcast (QuestionResult sid (name p0) (correctIndex cq) (getPlayerList g')),
                      Broadcast (GameOver (p0\<lparr>score := 10\<rparr>) (getPlayerList g'))]"
    by (auto simp: submitAnswer_def Let_def getPlayerList_def)
  from res g p0 cq idx less
  show "score p0 < 9 \<Longrightarrow> winner g' = winner g"
    "score p0 < 9 \<Longrightarrow> effs = [ClearInterval (timerInterval g),
                      Broadcast (QuestionResult sid (name p0) (correctIndex cq) (getPlayerList g')),
                      SetTimeout 3000]"
    by (auto simp: submitAnswer_def Let_def getPlayerList_def)
qed

lemma submitAnswer_ignored: 
  "submitAnswer g sid idx = Inr (g', []) \<Longrightarrow> g' = g"
  by (auto simp: submitAnswer_def Let_def split: if_splits option.splits)

lemma score_inv_submitAnswer:
  assumes inv: "score_inv g" and res: "submitAnswer g sid idx = Inr (g', effs)"
  shows "score_inv g'"
proof (cases "effs = []")
  case True
  with res inv submitAnswer_ignored show ?thesis by blast
next
  case False
  from submitAnswer_counted_ex[OF res False] obtain p0 cq where
    pc: "map_of (players g) sid = Some p0" "currentQuestion g = Some cq" by auto
  note c = submitAnswer_counted[OF inv res False pc]
  have p: "score p0 \<le> 9" "\<not> questionAnswered g"
      "players g' = AList.update sid (p0\<lparr>score := score p0 + 1\<rparr>) (players g)" "questionAnswered g'"
      "score p0 = 9 \<longrightarrow> winner g' = Some (p0\<lparr>score := 10\<rparr>)"
    using c by simp_all
  let ?p = "p0\<lparr>score := score p0 + 1\<rparr>"
  from inv p(2) have low: "\<forall>x\<in>set (map snd (players g)). score x \<le> 9"
    by (fastforce simp: score_inv_iff)
  have sub: "set (map snd (players g')) \<subseteq> insert ?p (set (map snd (players g)))"
    unfolding p(3) by (rule set_values_update)
  have all10: "\<forall>x\<in>set (map snd (players g')). score x \<le> 10"
    using sub low p(1) by fastforce
  have "winner g' \<noteq> None" if "\<exists>x\<in>set (map snd (players g')). 10 \<le> score x"
  proof -
    from that sub low have "10 \<le> score ?p" by fastforce
    with p(1) have "score p0 = 9" by simp
    with p(5) show ?thesis by simp
  qed
  with all10 p(4) show ?thesis unfolding score_inv_iff by blast
qed

lemma handle_preserves_score_inv:
  assumes "score_inv g" and "handle questions g e = Some (Inr (g', effs))"
  shows "score_inv g'"
proof (cases e)
  case (SetName sid raw)
  with assms score_inv_setName[of g sid raw] show ?thesis by auto
next
  case (StartGame sid gl)
  with assms score_inv_startGame[of g sid gl] show ?thesis by auto
next
  case (SubmitAnswer sid idx)
  with assms score_inv_submitAnswer[of g sid idx g' effs] show ?thesis by simp
next
  case (PlayAgain sid)
  with assms score_inv_playAgain[of g sid] show ?thesis by auto
next
  case (LeaveGame sid)
  with assms score_inv_leaveGame[of g sid] show ?thesis by auto
next
  case (NextQuestion r rs h)
  with assms score_inv_sendNextQuestion[of g questions r rs h g' effs] show ?thesis by simp
next
  case TimerTick
  with assms score_inv_countdownTick[of g g' effs] show ?thesis by simp
qed

lemma reachable_score_inv: "reachable questions g \<Longrightarrow> score_inv g"
  by (induction rule: reachable.induct) (auto intro: score_inv_new_Game handle_preserves_score_inv)

lemma gameOver_needs_ten:
  assumes "handle questions g e = Some (Inr (g', effs))"
    and "Broadcast (GameOver w sc) \<in> set effs"
  shows "\<exists>p\<in>set (getPlayerList g'). 10 \<le> score p"
proof (cases e)
  case (SetName sid raw)
  with assms show ?thesis by (auto simp: setName_def Let_def split: if_splits)
next
  case (StartGame sid gl)
  with assms show ?thesis by (auto simp: startGame_def split: if_splits)
next
  case (SubmitAnswer sid idx)
  with assms have res: "submitAnswer g sid idx = Inr (g', effs)" by simp
  from res assms(2) obtain p0 cq where
    s: "map_of (players g) sid = Some p0" "currentQuestion g = Some cq" "idx = correctIndex cq"
      "started g" "\<not> questionAnswered g"
    by (auto simp: submitAnswer_def split: if_splits option.splits)
  let ?g1 = "g\<lparr>questionAnswered := True,
               players := AList.update sid (p0\<lparr>score := score p0 + 1\<rparr>) (players g)\<rparr>"
  from res s assms(2) obtain gw where cw: "checkWinner ?g1 = Some gw" and g': "g' = ?g1\<lparr>winner := Some gw\<rparr>"
    by (auto simp: submitAnswer_def Let_def split: option.splits)
  from cw have "gw \<in> set (map snd (players ?g1))" "10 \<le> score gw"
    unfolding checkWinner_def find_Some_iff by (metis nth_mem)+
  with g' show ?thesis by (auto simp: getPlayerList_def)
next
  case (PlayAgain sid)
  with assms show ?thesis by (auto simp: playAgain_def Let_def split: if_splits)
next
  case (LeaveGame sid)
  with assms show ?thesis by (auto simp: leaveGame_def Let_def split: if_splits)
next
  case (NextQuestion r rs h)
  with assms show ?thesis
    by (auto simp: sendNextQuestion_def Let_def split: if_splits option.splits sum.splits)
next
  case TimerTick
  with assms show ?thesis
    by (auto simp: countdownTick_def Let_def split: if_splits option.splits)
qed

text \<open>
  Claim C5. In every state that a room reaches by any sequence of events: when a
  submission takes a player's score from 9 to 10, the winner of the room is set to that
  player, \<open>gameOver\<close> is broadcast with that player and the scores, no next round is
  scheduled, and \<open>sendNextQuestion\<close> does nothing from then on; and an event that leaves every
  score at 9 or less broadcasts no \<open>gameOver\<close>.
\<close>

theorem winner_at_ten:
  assumes reach: "reachable questions g"
    and step: "handle questions g e = Some (Inr (g', effs))"
  shows "(\<forall>sid idx p0 p. e = SubmitAnswer sid idx \<and> map_of (players g) sid = Some p0 \<and>
            score p0 = 9 \<and> map_of (players g') sid = Some p \<and> score p = 10 \<longrightarrow>
            winner g' = Some p \<and> Broadcast (GameOver p (getPlayerList g')) \<in> set effs \<and>
            (\<forall>ms. SetTimeout ms \<notin> set effs) \<and>
            (\<forall>r rs h. sendNextQuestion questions r rs h g' = Some (Inr (g', [])))) \<and>
         ((\<forall>p\<in>set (getPlayerList g'). score p \<le> 9) \<longrightarrow>
            (\<forall>w sc. Broadcast (GameOver w sc) \<notin> set effs))"
proof (intro conjI allI impI)
  fix sid idx p0 p
  assume a: "e = SubmitAnswer sid idx \<and> map_of (players g) sid = Some p0 \<and>
            score p0 = 9 \<and> map_of (players g') sid = Some p \<and> score p = 10"
  then have res: "submitAnswer g sid idx = Inr (g', effs)" using step by simp
  have inv: "score_inv g" using reach by (rule reachable_score_inv)
  have ne: "effs \<noteq> []"
  proof
    assume "effs = []"
    with res submitAnswer_ignored have "g' = g" by blast
    with a show False by auto
  qed
  have p0: "map_of (players g) sid = Some p0" and nine: "score p0 = 9" using a by simp_all
  from submitAnswer_counted_ex[OF res ne] p0 obtain cq where cq: "currentQuestion g = Some cq"
    by auto
  note c0 = submitAnswer_counted[OF inv res ne p0 cq]
  have c: "players g' = AList.update sid (p0\<lparr>score := score p0 + 1\<rparr>) (players g)"
      "winner g' = Some (p0\<lparr>score := 10\<rparr>)"
      "effs = [ClearInterval (timerInterval g),
               Broadcast (QuestionResult sid (name p0) (correctIndex cq) (getPlayerList g')),
               Broadcast (GameOver (p0\<lparr>score := 10\<rparr>) (getPlayerList g'))]"
    using c0 nine by simp_all
  from c(1) a nine have p: "p = p0\<lparr>score := 10\<rparr>" by (simp add: update_conv')
  show "winner g' = Some p" using c(2) p by simp
  show "Broadcast (GameOver p (getPlayerList g')) \<in> set effs" using c(3) p by simp
  show "\<And>ms. SetTimeout ms \<notin> set effs" using c(3) by simp
  show "\<And>r rs h. sendNextQuestion questions r rs h g' = Some (Inr (g', []))"
    using c(2) by (simp add: sendNextQuestion_def)
next
  fix w sc
  assume "\<forall>p\<in>set (getPlayerList g'). score p \<le> 9"
  then show "Broadcast (GameOver w sc) \<notin> set effs"
    using gameOver_needs_ten[OF step, of w sc] by fastforce
qed

lemma string_of_nat_0: "string_of_nat 0 = ''0''"
  by code_simp

lemma example_quiz_draw:
  assumes "gradeLevel g = Some ''6th''" and "usedQuestions g = {} \<or> usedQuestions g = {''algebra-0''}"
  shows "getRandomQuestion example_quiz 0 g =
     Some (Inr (Some \<lparr>question = ''2 + 2'', answers = [''4''], correctIndex = 0,
                      strand = ''algebra'', qid = ''algebra-0''\<rparr>,
                g\<lparr>usedQuestions := {''algebra-0''}\<rparr>))"
proof -
  have key: "example_quiz (property_key (gradeLevel g)) =
      Some [(''algebra'', [\<lparr>question = ''2 + 2'', answers = [''4''], correctIndex = 0\<rparr>])]"
    using assms(1) by (simp add: example_quiz_def property_key_def)
  have fresh: "getRandomQuestion example_quiz 0 g' =
     Some (Inr (Some \<lparr>question = ''2 + 2'', answers = [''4''], correctIndex = 0,
                      strand = ''algebra'', qid = ''algebra-0''\<rparr>,
                g'\<lparr>usedQuestions := {''algebra-0''}\<rparr>))"
    if "gradeLevel g' = Some ''6th''" "usedQuestions g' = {}" for g'
    using that
    by (subst getRandomQuestion.simps)
       (simp add: example_quiz_def property_key_def string_of_nat_0 Let_def random_floor_def)
  from assms(2) show ?thesis
  proof
    assume "usedQuestions g = {}"
    with fresh[of g] assms(1) show ?thesis by simp
  next
    assume u: "usedQuestions g = {''algebra-0''}"
    have "getRandomQuestion example_quiz 0 g = getRandomQuestion example_quiz 0 (g\<lparr>usedQuestions := {}\<rparr>)"
      using key u by (subst getRandomQuestion.simps) (simp add: string_of_nat_0 Let_def)
    with fresh[of "g\<lparr>usedQuestions := {}\<rparr>"] assms(1) show ?thesis by simp
  qed
qed

lemma example_shuffle: "shuffleAnswers rs [''4''] 0 = Inr ([''4''], 0)"
  by (simp add: shuffleAnswers_def)

lemma example_round_0: "reachable example_quiz (example_round 0)"
proof -
  let ?g0 = "new_Game ''ABCD1234'' ''h1''"
  let ?g1 = "?g0\<lparr>players := [(''h1'', \<lparr>pid = ''h1'', name = ''Ann'', score = 0, isHost = True\<rparr>)]\<rparr>"
  let ?g2 = "?g1\<lparr>gradeLevel := Some ''6th'', started := True\<rparr>"
  have r0: "reachable example_quiz ?g0" by (rule reachable.created)
  have "take 20 (trim ''Ann'') = ''Ann''" by (simp add: trim_def is_whitespace_def)
  then have "handle example_quiz ?g0 (SetName ''h1'' ''Ann'') =
      Some (Inr (?g1, [Broadcast (PlayerList (getPlayerList ?g1))]))"
    by (simp add: setName_def addPlayer_def new_Game_def Let_def)
  from reachable.after_event[OF r0 this] have r1: "reachable example_quiz ?g1" .
  have "handle example_quiz ?g1 (StartGame ''h1'' ''6th'') =
      Some (Inr (?g2, [Broadcast (GameStarted ''6th''), SetTimeout 1000]))"
    by (simp add: startGame_def new_Game_def)
  from reachable.after_event[OF r1 this] have r2: "reachable example_quiz ?g2" .
  have "\<exists>effs. handle example_quiz ?g2 (NextQuestion 0 (\<lambda>_. 0) 7) = Some (Inr (example_round 0, effs))"
    by (simp add: sendNextQuestion_def example_quiz_draw example_shuffle Let_def new_Game_def
        example_round_def)
  then obtain effs where
    "handle example_quiz ?g2 (NextQuestion 0 (\<lambda>_. 0) 7) = Some (Inr (example_round 0, effs))" ..
  from reachable.after_event[OF r2 this] show ?thesis .
qed

lemma example_round_Suc:
  assumes "k < 9" and r: "reachable example_quiz (example_round k)"
  shows "reachable example_quiz (example_round (Suc k))"
proof -
  let ?p = "\<lparr>pid = ''h1'', name = ''Ann'', score = Suc k, isHost = True\<rparr>"
  let ?g1 = "(example_round k)\<lparr>questionAnswered := True, players := [(''h1'', ?p)]\<rparr>"
  have "\<exists>effs. handle example_quiz (example_round k) (SubmitAnswer ''h1'' 0) = Some (Inr (?g1, effs))"
    using assms(1) by (simp add: submitAnswer_def example_round_def checkWinner_def Let_def)
  then obtain effs where
    "handle example_quiz (example_round k) (SubmitAnswer ''h1'' 0) = Some (Inr (?g1, effs))" ..
  from reachable.after_event[OF r this] have r1: "reachable example_quiz ?g1" .
  have "\<exists>effs. handle example_quiz ?g1 (NextQuestion 0 (\<lambda>_. 0) 7) = Some (Inr (example_round (Suc k), effs))"
    by (simp add: sendNextQuestion_def example_quiz_draw example_shuffle Let_def example_round_def)
  then obtain effs' where
    "handle example_quiz ?g1 (NextQuestion 0 (\<lambda>_. 0) 7) = Some (Inr (example_round (Suc k), effs'))" ..
  from reachable.after_event[OF r1 this] show ?thesis .
qed

lemma example_round_reachable: "k \<le> 9 \<Longrightarrow> reachable example_quiz (example_round k)"
proof (induction k)
  case 0
  show ?case by (rule example_round_0)
next
  case (Suc k)
  then show ?case by (intro example_round_Suc) auto
qed

theorem winner_at_ten_witness:
  "reachable example_quiz (example_round 9) \<and>
   handle example_quiz (example_round 9) (SubmitAnswer ''h1'' 0) =
     Some (Inr ((example_round 9)
                  \<lparr>questionAnswered := True,
                   players := [(''h1'', \<lparr>pid = ''h1'', name = ''Ann'', score = 10, isHost = True\<rparr>)],
                   winner := Some \<lparr>pid = ''h1'', name = ''Ann'', score = 10, isHost = True\<rparr>\<rparr>,
                [ClearInterval (Some 7),
                 Broadcast (QuestionResult ''h1'' ''Ann'' 0
                   [\<lparr>pid = ''h1'', name = ''Ann'', score = 10, isHost = True\<rparr>]),
                 Broadcast (GameOver \<lparr>pid = ''h1'', name = ''Ann'', score = 10, isHost = True\<rparr>
                   [\<lparr>pid = ''h1'', name = ''Ann'', score = 10, isHost = True\<rparr>])])) \<and>
   sendNextQuestion example_quiz 0 (\<lambda>_. 0) 8
     ((example_round 9)
        \<lparr>questionAnswered := True,
         players := [(''h1'', \<lparr>pid = ''h1'', name = ''Ann'', score = 10, isHost = True\<rparr>)],
         winner := Some \<lparr>pid = ''h1'', name = ''Ann'', score = 10, isHost = True\<rparr>\<rparr>) =
     Some (Inr ((example_round 9)
        \<lparr>questionAnswered := True,
         players := [(''h1'', \<lparr>pid = ''h1'', name = ''Ann'', score = 10, isHost = True\<rparr>)],
         winner := Some \<lparr>pid = ''h1'', name = ''Ann'', score = 10, isHost = True\<rparr>\<rparr>, [])) \<and>
   reachable example_quiz (example_round 3) \<and>
   handle example_quiz (example_round 3) (SubmitAnswer ''h1'' 0) =
     Some (Inr ((example_round 3)
                  \<lparr>questionAnswered := True,
                   players := [(''h1'', \<lparr>pid = ''h1'', name = ''Ann'', score = 4, isHost = True\<rparr>)]\<rparr>,
                [ClearInterval (Some 7),
                 Broadcast (QuestionResult ''h1'' ''Ann'' 0
                   [\<lparr>pid = ''h1'', name = ''Ann'', score = 4, isHost = True\<rparr>]),
                 SetTimeout 3000])) \<and>
   (\<nexists>w sc. Broadcast (GameOver w sc) \<in> set
      [ClearInterval (Some 7),
       Broadcast (QuestionResult ''h1'' ''Ann'' 0
         [\<lparr>pid = ''h1'', name = ''Ann'', score = 4, isHost = True\<rparr>]),
       SetTimeout 3000])"
proof -
  let ?w = "\<lparr>pid = ''h1'', name = ''Ann'', score = 10, isHost = True\<rparr>"
  let ?gw = "(example_round 9)\<lparr>questionAnswered := True, players := [(''h1'', ?w)], winner := Some ?w\<rparr>"
  let ?ew = "[ClearInterval (Some 7), Broadcast (QuestionResult ''h1'' ''Ann'' 0 [?w]),
              Broadcast (GameOver ?w [?w])]"
  let ?p4 = "\<lparr>pid = ''h1'', name = ''Ann'', score = 4, isHost = True\<rparr>"
  let ?g4 = "(example_round 3)\<lparr>questionAnswered := True, players := [(''h1'', ?p4)]\<rparr>"
  let ?e4 = "[ClearInterval (Some 7), Broadcast (QuestionResult ''h1'' ''Ann'' 0 [?p4]), SetTimeout 3000]"
  have r9: "reachable example_quiz (example_round 9)" by (rule example_round_reachable) simp
  have r3: "reachable example_quiz (example_round 3)" by (rule example_round_reachable) simp
  have s9: "handle example_quiz (example_round 9) (SubmitAnswer ''h1'' 0) = Some (Inr (?gw, ?ew))"
    by (simp add: submitAnswer_def example_round_def checkWinner_def getPlayerList_def Let_def)
  have s3: "handle example_quiz (example_round 3) (SubmitAnswer ''h1'' 0) = Some (Inr (?g4, ?e4))"
    by (simp add: submitAnswer_def example_round_def checkWinner_def getPlayerList_def Let_def)
  have a: "map_of (players (example_round 9)) ''h1'' =
      Some \<lparr>pid = ''h1'', name = ''Ann'', score = 9, isHost = True\<rparr>"
    "map_of (players ?gw) ''h1'' = Some ?w"
    by (simp_all add: example_round_def)
  note T9 = winner_at_ten[OF r9 s9, THEN conjunct1, rule_format,
      of "''h1''" 0 "\<lparr>pid = ''h1'', name = ''Ann'', score = 9, isHost = True\<rparr>" ?w]
  have n: "sendNextQuestion example_quiz 0 (\<lambda>_. 0) 8 ?gw = Some (Inr (?gw, []))"
    using T9 a by simp
  note T3 = winner_at_ten[OF r3 s3, THEN conjunct2]
  have ng: "\<nexists>w sc. Broadcast (GameOver w sc) \<in> set ?e4"
    using T3 by (simp add: getPlayerList_def)
  show ?thesis using r9 s9 n r3 s3 ng by (intro conjI)
qed

section \<open>One resolution for each question\<close>













section \<open>Deferred advances after a reset\<close>


end
